theory Spec2Isabelle
  imports Main "HOL-Library.Sublist" "HOL-Library.Multiset"
begin

section \<open>HomDGCat mirror tool: data model\<close>

text \<open>
  The tool (\<^verbatim>\<open>main.py\<close>) has a download engine (\<^verbatim>\<open>download_one\<close>, \<^verbatim>\<open>_file_ok\<close>,
  \<^verbatim>\<open>cmd_download\<close>, \<^verbatim>\<open>cmd_status\<close>) and a static file server (\<^verbatim>\<open>SiteHandler\<close>).
  Both work on the file system and the network; the model makes both explicit.

  \<^item> A path is the list of its components below the file-system root, as \<^verbatim>\<open>pathlib\<close>
    keeps them (\<^verbatim>\<open>Path.parts\<close> without the leading \<^verbatim>\<open>/\<close>).
  \<^item> The file system is a store from paths to nodes, keyed by the path that is handed to
    the operating system. The canonicalisation \<^verbatim>\<open>Path.resolve()\<close> is a parameter of the
    environment: it depends on symbolic links and on the platform, and every theorem holds
    for any such function.
  \<^item> Every call that reaches the operating system or the network appends an event to the
    trace of the world, so that "no I/O is performed" is a statement about the trace.
  \<^item> A Python exception is a value that carries its \<^verbatim>\<open>str(e)\<close>.
  \<^item> File contents and HTTP bodies are byte strings; a HOL character is one byte.
\<close>

type_synonym path = "string list"
type_synonym bytes = string

datatype exn = ValueError string | OSError string | RuntimeError string

fun str_exn :: "exn \<Rightarrow> string" where
  "str_exn (ValueError m) = m"
| "str_exn (OSError m) = m"
| "str_exn (RuntimeError m) = m"

text \<open>The handler \<^verbatim>\<open>except (ValueError, OSError)\<close>.\<close>

fun value_or_os_error :: "exn \<Rightarrow> bool" where
  "value_or_os_error (ValueError m) = True"
| "value_or_os_error (OSError m) = True"
| "value_or_os_error (RuntimeError m) = False"

datatype node =
    File (content: bytes) (file_mtime_ns: int) (readable: bool)
  | Dir (dir_size: nat) (dir_mtime_ns: int)

fun st_size :: "node \<Rightarrow> nat" where
  "st_size (File c m r) = length c"
| "st_size (Dir s m) = s"

fun st_mtime_ns :: "node \<Rightarrow> int" where
  "st_mtime_ns (File c m r) = m"
| "st_mtime_ns (Dir s m) = m"

text \<open>
  What the origin answers to one \<^verbatim>\<open>urlopen\<close>: an \<^verbatim>\<open>HTTPError\<close> with its status code
  and its \<^verbatim>\<open>str(e)\<close>, any other exception with its \<^verbatim>\<open>str(e)\<close>, or a response whose
  successive \<^verbatim>\<open>resp.read(65536)\<close> calls return the listed results (past the end of the
  list a read returns the empty chunk).
\<close>

datatype read = Chunk bytes | ReadFails string

datatype response = HTTPError nat string | Failure string | Body "read list"

text \<open>The outcome triple \<^verbatim>\<open>(status, path, info)\<close> of \<^verbatim>\<open>download_one\<close>: the status is
  \<^verbatim>\<open>True\<close> (fetched), \<^verbatim>\<open>None\<close> (already present) or \<^verbatim>\<open>False\<close> (failed); the
  info is a byte count or a string. The environment holds what the code takes from outside:
  the directory of the script, the canonicalisation of paths, the origin's answer to the
  \<open>n\<close>-th request for a URL, the clock, and the order in which the worker pool completes
  its futures.\<close>

datatype event =
    FsResolve path
  | FsStat path
  | FsMkdir path
  | FsOpen path
  | FsReplace path path
  | FsUnlink path
  | NetGet string
  | Sleep nat

datatype info = Total nat | Msg string

type_synonym result = "bool option \<times> string \<times> info"

record env =
  root_dir :: path
  resolve :: "path \<Rightarrow> exn + path"
  net :: "string \<Rightarrow> nat \<Rightarrow> response"
  clock_ns :: int
  as_completed :: "result list \<Rightarrow> result list"

record world =
  nodes :: "path \<rightharpoonup> node"
  trace :: "event list"

definition emit :: "event \<Rightarrow> world \<Rightarrow> world" where
  "emit e w = w\<lparr>trace := trace w @ [e]\<rparr>"

section \<open>Strings and paths\<close>

text \<open>\<^verbatim>\<open>s.split(c)\<close> for a one-character separator: never the empty list.\<close>

fun split_on :: "char \<Rightarrow> string \<Rightarrow> string list" where
  "split_on c [] = [[]]"
| "split_on c (x # xs) =
     (if x = c then [] # split_on c xs
      else (case split_on c xs of [] \<Rightarrow> [[x]] | y # ys \<Rightarrow> (x # y) # ys))"

text \<open>\<^verbatim>\<open>s.lstrip("/")\<close>.\<close>

definition lstrip_slash :: "string \<Rightarrow> string" where
  "lstrip_slash s = dropWhile (\<lambda>c. c = CHR ''/'') s"

text \<open>\<^verbatim>\<open>s.endswith(t)\<close>.\<close>

definition endswith :: "string \<Rightarrow> string \<Rightarrow> bool" where
  "endswith s t = (length t \<le> length s \<and> drop (length s - length t) s = t)"

text \<open>The components \<^verbatim>\<open>pathlib\<close> keeps of a POSIX path string: empty components and
  \<^verbatim>\<open>.\<close> are dropped, \<^verbatim>\<open>..\<close> is kept.\<close>

definition path_parts :: "string \<Rightarrow> path" where
  "path_parts s = filter (\<lambda>p. p \<noteq> [] \<and> p \<noteq> ''.'') (split_on CHR ''/'' s)"

text \<open>\<^verbatim>\<open>base / s\<close>: an absolute right operand replaces the base.\<close>

definition joinpath :: "path \<Rightarrow> string \<Rightarrow> path" where
  "joinpath base s = (if s \<noteq> [] \<and> hd s = CHR ''/'' then path_parts s else base @ path_parts s)"

text \<open>\<^verbatim>\<open>SITE_DIR = ROOT_DIR / "site"\<close>.\<close>

definition SITE_DIR :: "env \<Rightarrow> path" where
  "SITE_DIR e = root_dir e @ [''site'']"

definition BASE_URL :: string where
  "BASE_URL = ''https://homdgcat.wiki''"

text \<open>\<^verbatim>\<open>p.parent\<close> and \<^verbatim>\<open>p.with_suffix(p.suffix + ".tmp")\<close>; the latter appends
  \<^verbatim>\<open>.tmp\<close> to the last component, whatever its suffix is.\<close>

definition parent :: "path \<Rightarrow> path" where
  "parent p = butlast p"

definition tmp_sibling :: "path \<Rightarrow> path" where
  "tmp_sibling p = butlast p @ [last p @ ''.tmp'']"

section \<open>File-system primitives\<close>

definition exists_path :: "world \<Rightarrow> path \<Rightarrow> bool" where
  "exists_path w p = (nodes w p \<noteq> None)"

definition is_file :: "world \<Rightarrow> path \<Rightarrow> bool" where
  "is_file w p = (case nodes w p of Some (File c m r) \<Rightarrow> True | _ \<Rightarrow> False)"

text \<open>\<^verbatim>\<open>p.stat().st_size\<close> once the path is known to exist.\<close>

definition size_of :: "world \<Rightarrow> path \<Rightarrow> nat" where
  "size_of w p = (case nodes w p of Some n \<Rightarrow> st_size n | None \<Rightarrow> 0)"

text \<open>
  The mutating primitives return the exception they raise, if any, beside the world they
  leave behind.

  \<^verbatim>\<open>d.mkdir(parents=True, exist_ok=True)\<close>, walking the ancestors from the top: a
  regular file in the way raises.
\<close>

fun mkdir_chain :: "env \<Rightarrow> path list \<Rightarrow> world \<Rightarrow> exn option \<times> world" where
  "mkdir_chain e [] w = (None, w)"
| "mkdir_chain e (d # ds) w =
     (case nodes w d of
        Some (File c m r) \<Rightarrow> (Some (OSError ''[Errno 17] File exists''), w)
      | Some (Dir s m) \<Rightarrow> mkdir_chain e ds w
      | None \<Rightarrow> mkdir_chain e ds (w\<lparr>nodes := (nodes w)(d \<mapsto> Dir 4096 (clock_ns e))\<rparr>))"

definition mkdir_parents :: "env \<Rightarrow> path \<Rightarrow> world \<Rightarrow> exn option \<times> world" where
  "mkdir_parents e d w =
     mkdir_chain e (map (\<lambda>n. take n d) [1..<Suc (length d)]) (emit (FsMkdir d) w)"

text \<open>\<^verbatim>\<open>open(p, "wb")\<close> and \<^verbatim>\<open>open(p, "w")\<close>: create or truncate; a directory raises.\<close>

definition open_wb :: "env \<Rightarrow> path \<Rightarrow> world \<Rightarrow> exn option \<times> world" where
  "open_wb e p w =
     (let w1 = emit (FsOpen p) w in
      case nodes w1 p of
        Some (Dir s m) \<Rightarrow> (Some (OSError ''[Errno 21] Is a directory''), w1)
      | _ \<Rightarrow> (None, w1\<lparr>nodes := (nodes w1)(p \<mapsto> File [] (clock_ns e) True)\<rparr>))"

text \<open>What the writes to an open file leave in it.\<close>

definition write_all :: "env \<Rightarrow> path \<Rightarrow> bytes \<Rightarrow> world \<Rightarrow> world" where
  "write_all e p buf w = w\<lparr>nodes := (nodes w)(p \<mapsto> File buf (clock_ns e) True)\<rparr>"

text \<open>\<^verbatim>\<open>p.unlink(missing_ok=True)\<close>: a directory raises.\<close>

definition unlink_missing_ok :: "path \<Rightarrow> world \<Rightarrow> exn option \<times> world" where
  "unlink_missing_ok p w =
     (let w1 = emit (FsUnlink p) w in
      case nodes w1 p of
        Some (Dir s m) \<Rightarrow> (Some (OSError ''[Errno 21] Is a directory''), w1)
      | _ \<Rightarrow> (None, w1\<lparr>nodes := (nodes w1)(p := None)\<rparr>))"

text \<open>\<^verbatim>\<open>src.replace(dst)\<close>: an atomic rename; a directory at the destination raises.\<close>

definition replace_path :: "path \<Rightarrow> path \<Rightarrow> world \<Rightarrow> exn option \<times> world" where
  "replace_path src dst w =
     (let w1 = emit (FsReplace src dst) w in
      case nodes w1 dst of
        Some (Dir s m) \<Rightarrow> (Some (OSError ''[Errno 21] Is a directory''), w1)
      | _ \<Rightarrow> (None, w1\<lparr>nodes := (nodes w1)(dst := nodes w1 src, src := None)\<rparr>))"

section \<open>The containment guard\<close>

text \<open>
  \<^verbatim>\<open>p.resolve().relative_to(SITE_DIR.resolve())\<close> inside
  \<^verbatim>\<open>try ... except (ValueError, OSError)\<close>: the left operand is resolved first, then the
  root; \<^verbatim>\<open>relative_to\<close> raises \<^verbatim>\<open>ValueError\<close> unless the root's components are a
  prefix. The result is \<^verbatim>\<open>Inr True\<close> when the path is inside, \<^verbatim>\<open>Inr False\<close> when the
  handler caught the exception, and \<^verbatim>\<open>Inl e\<close> when an exception passes the handler.
\<close>

definition guard :: "env \<Rightarrow> path \<Rightarrow> world \<Rightarrow> (exn + bool) \<times> world" where
  "guard e p w =
     (let w1 = emit (FsResolve p) w in
      case resolve e p of
        Inl x \<Rightarrow> ((if value_or_os_error x then Inr False else Inl x), w1)
      | Inr q \<Rightarrow>
          (let w2 = emit (FsResolve (SITE_DIR e)) w1 in
           case resolve e (SITE_DIR e) of
             Inl x \<Rightarrow> ((if value_or_os_error x then Inr False else Inl x), w2)
           | Inr r \<Rightarrow> (Inr (prefix r q), w2)))"

text \<open>The resolved path of \<open>p\<close> lies outside the resolved mirror root.\<close>

definition escapes :: "env \<Rightarrow> path \<Rightarrow> bool" where
  "escapes e p =
     (case resolve e p of
        Inl x \<Rightarrow> False
      | Inr q \<Rightarrow> (case resolve e (SITE_DIR e) of Inl x \<Rightarrow> False | Inr r \<Rightarrow> \<not> prefix r q))"

text \<open>\<^verbatim>\<open>p.exists() and p.stat().st_size > 0\<close>.\<close>

definition exists_nonempty :: "path \<Rightarrow> world \<Rightarrow> bool \<times> world" where
  "exists_nonempty p w =
     (let w1 = emit (FsStat p) w in
      if exists_path w1 p then (let w2 = emit (FsStat p) w1 in (0 < size_of w2 p, w2))
      else (False, w1))"

section \<open>The download engine\<close>

subsection \<open>Request path and percent-encoding\<close>

definition hex_digit_upper :: "nat \<Rightarrow> char" where
  "hex_digit_upper n = (''0123456789ABCDEF'') ! n"

text \<open>\<^verbatim>\<open>urllib.parse.quote\<close> works on the UTF-8 bytes of the string, which are the
  characters of a HOL string.\<close>

definition always_safe :: "char set" where
  "always_safe = set ''ABCDEFGHIJKLMNOPQRSTUVWXYZabcdefghijklmnopqrstuvwxyz0123456789_.-~''"

definition quote_safe :: "char set" where
  "quote_safe = set [CHR ''/'', CHR '':'', CHR ''@'', CHR ''!'', CHR ''$'', CHR ''&'', CHR 0x27,
     CHR ''('', CHR '')'', CHR ''*'', CHR ''+'', CHR '','', CHR '';'', CHR ''='', CHR ''-'',
     CHR ''.'', CHR ''_'', CHR ''~'', CHR ''%'']"

definition quote_char :: "char \<Rightarrow> string" where
  "quote_char c =
     (if c \<in> always_safe \<union> quote_safe then [c]
      else [CHR ''%'', hex_digit_upper (of_char c div 16), hex_digit_upper (of_char c mod 16)])"

definition quote :: "string \<Rightarrow> string" where
  "quote s = concat (map quote_char s)"

definition request_path :: "string \<Rightarrow> string" where
  "request_path url_path =
     (if endswith url_path ''/index.html''
      then take (length url_path - length ''index.html'') url_path
      else url_path)"

definition full_url :: "string \<Rightarrow> string" where
  "full_url url_path = BASE_URL @ quote (request_path url_path)"

subsection \<open>One attempt and the retry loop\<close>

text \<open>The streaming loop: chunks are appended to the temporary file until a read returns
  the empty chunk or raises.\<close>

fun stream_copy :: "read list \<Rightarrow> bytes \<Rightarrow> nat \<Rightarrow> string option \<times> bytes \<times> nat" where
  "stream_copy [] buf tot = (None, buf, tot)"
| "stream_copy (Chunk c # rs) buf tot =
     (if c = [] then (None, buf, tot) else stream_copy rs (buf @ c) (tot + length c))"
| "stream_copy (ReadFails m # rs) buf tot = (Some m, buf, tot)"

datatype step = Return result world | Next world

text \<open>The handler \<^verbatim>\<open>except Exception as e\<close> of one attempt. An exception raised by the
  handler's own \<^verbatim>\<open>unlink\<close> leaves the loop and is caught by the outer handler of
  \<^verbatim>\<open>download_one\<close>.\<close>

definition on_exception :: "string \<Rightarrow> path \<Rightarrow> int \<Rightarrow> nat \<Rightarrow> string \<Rightarrow> world \<Rightarrow> step" where
  "on_exception url_path tmp_path retries attempt msg w =
     (case unlink_missing_ok tmp_path w of
        (Some x, w1) \<Rightarrow> Return (Some False, url_path, Msg (str_exn x)) w1
      | (None, w1) \<Rightarrow>
          if int attempt < retries - 1 then Next (emit (Sleep (2 ^ attempt)) w1)
          else Return (Some False, url_path, Msg msg) w1)"

text \<open>The handler \<^verbatim>\<open>except urllib.error.HTTPError as e\<close>.\<close>

definition on_http_error :: "string \<Rightarrow> path \<Rightarrow> int \<Rightarrow> nat \<Rightarrow> nat \<Rightarrow> world \<Rightarrow> step" where
  "on_http_error url_path tmp_path retries attempt code w =
     (case unlink_missing_ok tmp_path w of
        (Some x, w1) \<Rightarrow> Return (Some False, url_path, Msg (str_exn x)) w1
      | (None, w1) \<Rightarrow>
          if code = 404 then Return (Some False, url_path, Msg ''404'') w1
          else if int attempt < retries - 1 then Next (emit (Sleep (2 ^ attempt)) w1)
          else Next w1)"

definition attempt_once ::
  "env \<Rightarrow> string \<Rightarrow> string \<Rightarrow> path \<Rightarrow> path \<Rightarrow> int \<Rightarrow> nat \<Rightarrow> world \<Rightarrow> step" where
  "attempt_once e url_path url local_path tmp_path retries attempt w =
     (let w1 = emit (NetGet url) w in
      case net e url attempt of
        HTTPError code msg \<Rightarrow> on_http_error url_path tmp_path retries attempt code w1
      | Failure msg \<Rightarrow> on_exception url_path tmp_path retries attempt msg w1
      | Body reads \<Rightarrow>
          (case open_wb e tmp_path w1 of
             (Some x, w2) \<Rightarrow> on_exception url_path tmp_path retries attempt (str_exn x) w2
           | (None, w2) \<Rightarrow>
               (case stream_copy reads [] 0 of
                  (Some msg, buf, tot) \<Rightarrow>
                    on_exception url_path tmp_path retries attempt msg (write_all e tmp_path buf w2)
                | (None, buf, tot) \<Rightarrow>
                    (let w3 = write_all e tmp_path buf w2 in
                     if 0 < tot then
                       (case replace_path tmp_path local_path w3 of
                          (Some x, w4) \<Rightarrow>
                            on_exception url_path tmp_path retries attempt (str_exn x) w4
                        | (None, w4) \<Rightarrow> Return (Some True, url_path, Total tot) w4)
                     else
                       (case unlink_missing_ok tmp_path w3 of
                          (Some x, w4) \<Rightarrow>
                            on_exception url_path tmp_path retries attempt (str_exn x) w4
                        | (None, w4) \<Rightarrow> Return (Some False, url_path, Msg ''empty'') w4)))))"

text \<open>\<^verbatim>\<open>for attempt in range(retries)\<close>, with the fall-through \<^verbatim>\<open>return\<close> after it.\<close>

fun attempts ::
  "env \<Rightarrow> string \<Rightarrow> string \<Rightarrow> path \<Rightarrow> path \<Rightarrow> int \<Rightarrow> nat list \<Rightarrow> world \<Rightarrow> result \<times> world" where
  "attempts e url_path url local_path tmp_path retries [] w =
     ((Some False, url_path, Msg ''failed''), w)"
| "attempts e url_path url local_path tmp_path retries (attempt # rest) w =
     (case attempt_once e url_path url local_path tmp_path retries attempt w of
        Return r w1 \<Rightarrow> (r, w1)
      | Next w1 \<Rightarrow> attempts e url_path url local_path tmp_path retries rest w1)"

text \<open>\<^verbatim>\<open>download_one(url_path, retries)\<close>. Every exception that leaves the body is caught
  by the outer \<^verbatim>\<open>except Exception\<close> and becomes a failure with its \<^verbatim>\<open>str(e)\<close>.\<close>

definition download_one :: "env \<Rightarrow> string \<Rightarrow> int \<Rightarrow> world \<Rightarrow> result \<times> world" where
  "download_one e url_path retries w =
     (let local_path = joinpath (SITE_DIR e) (lstrip_slash url_path) in
      case guard e local_path w of
        (Inl x, w1) \<Rightarrow> ((Some False, url_path, Msg (str_exn x)), w1)
      | (Inr False, w1) \<Rightarrow> ((Some False, url_path, Msg ''path traversal blocked''), w1)
      | (Inr True, w1) \<Rightarrow>
          (case exists_nonempty local_path w1 of
             (True, w2) \<Rightarrow> ((None, url_path, Msg ''exists''), w2)
           | (False, w2) \<Rightarrow>
               (case mkdir_parents e (parent local_path) w2 of
                  (Some x, w3) \<Rightarrow> ((Some False, url_path, Msg (str_exn x)), w3)
                | (None, w3) \<Rightarrow>
                    attempts e url_path (full_url url_path) local_path (tmp_sibling local_path)
                      retries [0..<nat retries] w3)))"

text \<open>\<^verbatim>\<open>_file_ok\<close>: the same guard, then existence and size.\<close>

definition file_ok :: "env \<Rightarrow> string \<Rightarrow> world \<Rightarrow> (exn + bool) \<times> world" where
  "file_ok e url_path w =
     (let p = joinpath (SITE_DIR e) (lstrip_slash url_path) in
      case guard e p w of
        (Inl x, w1) \<Rightarrow> (Inl x, w1)
      | (Inr False, w1) \<Rightarrow> (Inr False, w1)
      | (Inr True, w1) \<Rightarrow> (case exists_nonempty p w1 of (b, w2) \<Rightarrow> (Inr b, w2)))"

subsection \<open>The batch: \<^verbatim>\<open>cmd_download\<close> and \<^verbatim>\<open>cmd_status\<close>\<close>

text \<open>\<^verbatim>\<open>str(n)\<close> for a non-negative integer.\<close>

definition dec_digit :: "nat \<Rightarrow> char" where
  "dec_digit n = (''0123456789'') ! n"

fun str_nat :: "nat \<Rightarrow> string" where
  "str_nat n = (if n < 10 then [dec_digit n] else str_nat (n div 10) @ [dec_digit (n mod 10)])"

declare str_nat.simps [simp del]

fun str_info :: "info \<Rightarrow> string" where
  "str_info (Msg m) = m"
| "str_info (Total n) = str_nat n"

text \<open>\<^verbatim>\<open>total_bytes += info\<close> is reached with a \<^verbatim>\<open>True\<close> status only, which always
  carries a byte count.\<close>

fun bytes_of :: "info \<Rightarrow> nat" where
  "bytes_of (Total n) = n"
| "bytes_of (Msg m) = 0"

text \<open>\<^verbatim>\<open>to_download = [p for p in all_paths if not _file_ok(p)]\<close>.\<close>

fun pending :: "env \<Rightarrow> string list \<Rightarrow> world \<Rightarrow> (exn + string list) \<times> world" where
  "pending e [] w = (Inr [], w)"
| "pending e (p # ps) w =
     (case file_ok e p w of
        (Inl x, w1) \<Rightarrow> (Inl x, w1)
      | (Inr b, w1) \<Rightarrow>
          (case pending e ps w1 of
             (Inl x, w2) \<Rightarrow> (Inl x, w2)
           | (Inr rest, w2) \<Rightarrow> (Inr (if b then rest else p # rest), w2)))"

text \<open>The worker pool runs \<^verbatim>\<open>download_one\<close> once for every pending entry. The model
  runs them one after the other in submission order; the order in which the results reach
  the aggregation loop is \<open>as_completed\<close> of the environment.\<close>

fun run_all :: "env \<Rightarrow> int \<Rightarrow> string list \<Rightarrow> world \<Rightarrow> result list \<times> world" where
  "run_all e retries [] w = ([], w)"
| "run_all e retries (p # ps) w =
     (case download_one e p retries w of
        (r, w1) \<Rightarrow> (case run_all e retries ps w1 of (rs, w2) \<Rightarrow> (r # rs, w2)))"

record tally =
  success :: nat
  not_found :: nat
  failed :: nat
  total_bytes :: nat
  failed_paths :: "(string \<times> info) list"

definition tally0 :: tally where
  "tally0 = \<lparr>success = 0, not_found = 0, failed = 0, total_bytes = 0, failed_paths = []\<rparr>"

text \<open>The body of the aggregation loop: \<^verbatim>\<open>if ok is True ... elif info == "404" ...
  elif ok is not None ...\<close>.\<close>

definition tally_step :: "tally \<Rightarrow> result \<Rightarrow> tally" where
  "tally_step t r =
     (case r of (ok, path, msg) \<Rightarrow>
        if ok = Some True then
          t\<lparr>success := success t + 1, total_bytes := total_bytes t + bytes_of msg\<rparr>
        else if msg = Msg ''404'' then t\<lparr>not_found := not_found t + 1\<rparr>
        else if ok \<noteq> None then
          t\<lparr>failed := failed t + 1, failed_paths := failed_paths t @ [(path, msg)]\<rparr>
        else t)"

definition fail_file :: "env \<Rightarrow> path" where
  "fail_file e = root_dir e @ [''download_failures.txt'']"

text \<open>One line of the failure report: the path, a tab, the info, a newline.\<close>

definition report_line :: "string \<times> info \<Rightarrow> string" where
  "report_line pi = fst pi @ [CHR 0x09] @ str_info (snd pi) @ [CHR 0x0A]"

definition write_report :: "env \<Rightarrow> (string \<times> info) list \<Rightarrow> world \<Rightarrow> exn option \<times> world" where
  "write_report e fps w =
     (case open_wb e (fail_file e) w of
        (Some x, w1) \<Rightarrow> (Some x, w1)
      | (None, w1) \<Rightarrow> (None, write_all e (fail_file e) (concat (map report_line fps)) w1))"

text \<open>\<^verbatim>\<open>cmd_download\<close>, given the manifest as \<^verbatim>\<open>load_filelist\<close> returns it and
  \<^verbatim>\<open>args.retry\<close>. The result is \<open>None\<close> when there was nothing to download, and the
  final counters otherwise. Printing is left out.\<close>

definition cmd_download ::
  "env \<Rightarrow> string list \<Rightarrow> int \<Rightarrow> world \<Rightarrow> (exn + tally option) \<times> world" where
  "cmd_download e all_paths retries w =
     (case pending e all_paths w of
        (Inl x, w1) \<Rightarrow> (Inl x, w1)
      | (Inr to_download, w1) \<Rightarrow>
          if to_download = [] then (Inr None, w1)
          else
            (case run_all e retries to_download w1 of
               (rs, w2) \<Rightarrow>
                 (let t = foldl tally_step tally0 (as_completed e rs) in
                  if failed_paths t \<noteq> [] then
                    (case write_report e (failed_paths t) w2 of
                       (Some x, w3) \<Rightarrow> (Inl x, w3)
                     | (None, w3) \<Rightarrow> (Inr (Some t), w3))
                  else (Inr (Some t), w2))))"

text \<open>\<^verbatim>\<open>p.strip("/")\<close> and the category of a missing entry in \<^verbatim>\<open>cmd_status\<close>:
  the first two components when there are more than two, the first one otherwise.\<close>

definition strip_slash :: "string \<Rightarrow> string" where
  "strip_slash s = rev (lstrip_slash (rev (lstrip_slash s)))"

definition category :: "string \<Rightarrow> string" where
  "category p =
     (case split_on CHR ''/'' (strip_slash p) of
        a # b # c # rest \<Rightarrow> a @ ''/'' @ b
      | a # rest \<Rightarrow> a
      | [] \<Rightarrow> [])"

text \<open>\<^verbatim>\<open>cats[cat] = cats.get(cat, 0) + 1\<close> on a dictionary kept in insertion order.\<close>

fun bump :: "string \<Rightarrow> (string \<times> nat) list \<Rightarrow> (string \<times> nat) list" where
  "bump k [] = [(k, 1)]"
| "bump k ((k', c) # rest) = (if k = k' then (k', c + 1) # rest else (k', c) # bump k rest)"

record status_report =
  existing :: nat
  missing :: nat
  total_size :: nat
  cats :: "(string \<times> nat) list"

definition status0 :: status_report where
  "status0 = \<lparr>existing = 0, missing = 0, total_size = 0, cats = []\<rparr>"

fun status_loop ::
  "env \<Rightarrow> string list \<Rightarrow> status_report \<Rightarrow> world \<Rightarrow> (exn + status_report) \<times> world" where
  "status_loop e [] s w = (Inr s, w)"
| "status_loop e (p # ps) s w =
     (case file_ok e p w of
        (Inl x, w1) \<Rightarrow> (Inl x, w1)
      | (Inr True, w1) \<Rightarrow>
          (let local = joinpath (SITE_DIR e) (lstrip_slash p);
               w2 = emit (FsStat local) w1
           in status_loop e ps
                (s\<lparr>existing := existing s + 1, total_size := total_size s + size_of w2 local\<rparr>) w2)
      | (Inr False, w1) \<Rightarrow>
          status_loop e ps
            (s\<lparr>missing := missing s + 1, cats := bump (category p) (cats s)\<rparr>) w1)"

definition cmd_status :: "env \<Rightarrow> string list \<Rightarrow> world \<Rightarrow> (exn + status_report) \<times> world" where
  "cmd_status e all_paths w = status_loop e all_paths status0 w"

section \<open>Observing the trace\<close>

definition is_net :: "event \<Rightarrow> bool" where
  "is_net ev = (case ev of NetGet u \<Rightarrow> True | _ \<Rightarrow> False)"

text \<open>The events a run appended, and the network requests among them.\<close>

definition new_events :: "world \<Rightarrow> world \<Rightarrow> event list" where
  "new_events w w' = drop (length (trace w)) (trace w')"

definition net_requests :: "world \<Rightarrow> world \<Rightarrow> event list" where
  "net_requests w w' = filter is_net (new_events w w')"

section \<open>Conditions on a run of the retry loop\<close>

definition is_dir :: "world \<Rightarrow> path \<Rightarrow> bool" where
  "is_dir w p = (case nodes w p of Some (Dir s m) \<Rightarrow> True | _ \<Rightarrow> False)"

text \<open>A response after which the loop goes on to the next attempt, if one is left: an HTTP
  error other than 404, any other exception, or a body whose reading raises.\<close>

fun retryable :: "response \<Rightarrow> bool" where
  "retryable (HTTPError code m) = (code \<noteq> 404)"
| "retryable (Failure m) = True"
| "retryable (Body reads) = (fst (stream_copy reads [] 0) \<noteq> None)"

text \<open>A response that is read to its end and has no byte.\<close>

fun completes_empty :: "response \<Rightarrow> bool" where
  "completes_empty (Body reads) =
     (fst (stream_copy reads [] 0) = None \<and> snd (snd (stream_copy reads [] 0)) = 0)"
| "completes_empty (HTTPError code m) = False"
| "completes_empty (Failure m) = False"



definition quiet :: "world \<Rightarrow> world \<Rightarrow> bool" where
  "quiet w w' = (\<exists>evs. trace w' = trace w @ evs \<and> filter is_net evs = [])"


definition gets_only :: "string \<Rightarrow> world \<Rightarrow> world \<Rightarrow> bool" where
  "gets_only u w w' = (\<exists>evs. trace w' = trace w @ evs \<and> (\<forall>ev\<in>set evs. is_net ev \<longrightarrow> ev = NetGet u))"



section \<open>The static file server\<close>

text \<open>
  A request, as far as \<^verbatim>\<open>SiteHandler\<close> reads it: the request target and the two headers it
  looks at (\<open>None\<close> when the header is absent). Header values are Latin-1 strings, one
  character per byte. A reply is what \<^verbatim>\<open>send_response\<close>, \<^verbatim>\<open>send_header\<close> and
  \<^verbatim>\<open>wfile.write\<close> produce (the headers in the order sent, the body if one is written), or
  the error page of \<^verbatim>\<open>send_error\<close>.

  The standard library functions whose results the handler passes on are parameters:
  \<^verbatim>\<open>urllib.parse.unquote\<close>, gzip compression at level 6, the \<^verbatim>\<open>Last-Modified\<close> text that
  \<^verbatim>\<open>date_time_string(int(st.st_mtime))\<close> gives for a modification time in nanoseconds, and
  the \<^verbatim>\<open>Server\<close> and \<^verbatim>\<open>Date\<close> headers that \<^verbatim>\<open>send_response\<close> adds.
\<close>

record request =
  req_path :: string
  if_none_match :: "string option"
  accept_encoding :: "string option"

datatype reply =
    Reply (status: nat) (headers: "(string \<times> string) list") (body: "bytes option")
  | ErrorReply nat

record codec =
  unquote :: "string \<Rightarrow> string"
  gzip :: "bytes \<Rightarrow> bytes"
  last_modified :: "int \<Rightarrow> string"
  server_header :: string
  date_header :: string

subsection \<open>\<^verbatim>\<open>_resolve_path\<close>\<close>

definition root_index :: "env \<Rightarrow> path" where
  "root_index e = SITE_DIR e @ [''index'', ''index.html'']"

text \<open>\<^verbatim>\<open>p.is_file()\<close>: one look at the file system.\<close>

definition probe_file :: "path \<Rightarrow> world \<Rightarrow> bool \<times> world" where
  "probe_file p w = (is_file w p, emit (FsStat p) w)"

text \<open>The guard of the resolver: \<^verbatim>\<open>target.resolve().relative_to(site_resolved)\<close> inside
  \<^verbatim>\<open>try ... except (ValueError, OSError): return None\<close>. One candidate ends in a target
  (\<^verbatim>\<open>return target\<close>), in a rejection (\<^verbatim>\<open>return None\<close>) or in \<^verbatim>\<open>continue\<close>.\<close>

datatype found = Found path | Rejected | Skip

definition check_target :: "env \<Rightarrow> path \<Rightarrow> path \<Rightarrow> world \<Rightarrow> (exn + found) \<times> world" where
  "check_target e site_resolved target w =
     (let w1 = emit (FsResolve target) w in
      case resolve e target of
        Inl x \<Rightarrow> ((if value_or_os_error x then Inr Rejected else Inl x), w1)
      | Inr q \<Rightarrow> (Inr (if prefix site_resolved q then Found target else Rejected), w1))"

definition try_candidate :: "env \<Rightarrow> path \<Rightarrow> string \<Rightarrow> world \<Rightarrow> (exn + found) \<times> world" where
  "try_candidate e site_resolved candidate w =
     (let stripped = lstrip_slash candidate in
      if stripped = [] then
        (case probe_file (root_index e) w of
           (True, w1) \<Rightarrow> (Inr (Found (root_index e)), w1)
         | (False, w1) \<Rightarrow> (Inr Skip, w1))
      else
        (let fp = joinpath (SITE_DIR e) stripped in
         case probe_file fp w of
           (True, w1) \<Rightarrow> check_target e site_resolved fp w1
         | (False, w1) \<Rightarrow>
             (case probe_file (joinpath fp ''index.html'') w1 of
                (True, w2) \<Rightarrow> check_target e site_resolved (joinpath fp ''index.html'') w2
              | (False, w2) \<Rightarrow> (Inr Skip, w2))))"

fun try_candidates :: "env \<Rightarrow> path \<Rightarrow> string list \<Rightarrow> world \<Rightarrow> (exn + path option) \<times> world" where
  "try_candidates e site_resolved [] w = (Inr None, w)"
| "try_candidates e site_resolved (c # cs) w =
     (case try_candidate e site_resolved c w of
        (Inl x, w1) \<Rightarrow> (Inl x, w1)
      | (Inr (Found t), w1) \<Rightarrow> (Inr (Some t), w1)
      | (Inr Rejected, w1) \<Rightarrow> (Inr None, w1)
      | (Inr Skip, w1) \<Rightarrow> try_candidates e site_resolved cs w1)"

text \<open>\<^verbatim>\<open>s.split(c)[0]\<close>.\<close>

definition before_char :: "char \<Rightarrow> string \<Rightarrow> string" where
  "before_char c s = (case split_on c s of [] \<Rightarrow> [] | x # xs \<Rightarrow> x)"

text \<open>\<^verbatim>\<open>_resolve_path\<close>: the decoded form of the request path is tried first, then the raw
  form. \<^verbatim>\<open>SITE_DIR.resolve()\<close> at the top is outside every handler.\<close>

definition resolve_path :: "env \<Rightarrow> codec \<Rightarrow> string \<Rightarrow> world \<Rightarrow> (exn + path option) \<times> world" where
  "resolve_path e c path w =
     (let raw = before_char CHR ''#'' (before_char CHR ''?'' path);
          decoded = unquote c raw;
          w1 = emit (FsResolve (SITE_DIR e)) w
      in case resolve e (SITE_DIR e) of
           Inl x \<Rightarrow> (Inl x, w1)
         | Inr site_resolved \<Rightarrow> try_candidates e site_resolved [decoded, raw] w1)"

subsection \<open>ETag, extension tables and header tests\<close>

definition hex_digit_lower :: "nat \<Rightarrow> char" where
  "hex_digit_lower n = (''0123456789abcdef'') ! n"

fun hex_nat :: "nat \<Rightarrow> string" where
  "hex_nat n = (if n < 16 then [hex_digit_lower n] else hex_nat (n div 16) @ [hex_digit_lower (n mod 16)])"

declare hex_nat.simps [simp del]

text \<open>\<^verbatim>\<open>format(i, "x")\<close>: a negative number has a minus sign before its digits.\<close>

definition hex_int :: "int \<Rightarrow> string" where
  "hex_int i = (if i < 0 then CHR ''-'' # hex_nat (nat (- i)) else hex_nat (nat i))"

text \<open>\<^verbatim>\<open>_make_etag\<close>: a double quote, the modification time in nanoseconds, a hyphen, the
  size, a double quote.\<close>

definition make_etag :: "node \<Rightarrow> string" where
  "make_etag st = CHR 0x22 # hex_int (st_mtime_ns st) @ CHR ''-'' # hex_nat (st_size st) @ [CHR 0x22]"

text \<open>\<^verbatim>\<open>fp.suffix.lower()\<close>. The suffix of the last component starts at its last dot,
  unless that dot is the first or the last character. Lower-casing touches the ASCII capitals
  only; no other character lower-cases to a member of the extension tables.\<close>

definition suffix_of :: "path \<Rightarrow> string" where
  "suffix_of p =
     (if p = [] then []
      else (let name = last p; k = length (takeWhile (\<lambda>c. c \<noteq> CHR ''.'') (rev name)) in
            if k = length name then []
            else if 0 < length name - 1 - k \<and> 0 < k then drop (length name - 1 - k) name
            else []))"

definition lower_char :: "char \<Rightarrow> char" where
  "lower_char c =
     (if (65::nat) \<le> of_char c \<and> of_char c \<le> (90::nat) then char_of (of_char c + (32::nat)) else c)"

definition lower :: "string \<Rightarrow> string" where
  "lower s = map lower_char s"

definition COMPRESSIBLE :: "string list" where
  "COMPRESSIBLE = [''.js'', ''.css'', ''.html'', ''.json'', ''.svg'', ''.txt'', ''.xml'']"

definition STATIC_BIN :: "string list" where
  "STATIC_BIN = [''.png'', ''.jpg'', ''.jpeg'', ''.gif'', ''.webp'', ''.woff'', ''.woff2'', ''.wav'']"

definition MIME_MAP :: "(string \<times> string) list" where
  "MIME_MAP =
     [(''.js'', ''application/javascript; charset=utf-8''),
      (''.css'', ''text/css; charset=utf-8''),
      (''.json'', ''application/json; charset=utf-8''),
      (''.html'', ''text/html; charset=utf-8''),
      (''.png'', ''image/png''), (''.jpg'', ''image/jpeg''), (''.jpeg'', ''image/jpeg''),
      (''.gif'', ''image/gif''), (''.svg'', ''image/svg+xml; charset=utf-8''),
      (''.webp'', ''image/webp''), (''.wav'', ''audio/wav''),
      (''.woff2'', ''font/woff2''), (''.woff'', ''font/woff''),
      (''.xml'', ''application/xml; charset=utf-8''),
      (''.txt'', ''text/plain; charset=utf-8''),
      (''.ico'', ''image/x-icon'')]"

definition content_type :: "string \<Rightarrow> string" where
  "content_type ext = (case map_of MIME_MAP ext of Some t \<Rightarrow> t | None \<Rightarrow> ''application/octet-stream'')"

definition cache_control :: "string \<Rightarrow> string" where
  "cache_control ext =
     (if ext \<in> set (STATIC_BIN @ [''.woff'', ''.woff2'']) then ''public, max-age=604800''
      else if ext \<in> set [''.js'', ''.css''] then ''public, max-age=86400''
      else if ext = ''.html'' then ''public, max-age=3600''
      else ''public, max-age=3600'')"

text \<open>\<^verbatim>\<open>str.strip()\<close>: the characters below 256 for which \<^verbatim>\<open>str.isspace\<close> holds.\<close>

definition is_space :: "char \<Rightarrow> bool" where
  "is_space c = ((of_char c :: nat) \<in> set [9, 10, 11, 12, 13, 28, 29, 30, 31, 32, 133, 160])"

definition strip :: "string \<Rightarrow> string" where
  "strip s = rev (dropWhile is_space (rev (dropWhile is_space s)))"

text \<open>\<^verbatim>\<open>if_none and etag in (t.strip() for t in if_none.split(","))\<close>.\<close>

definition inm_matches :: "string \<Rightarrow> string option \<Rightarrow> bool" where
  "inm_matches etag if_none =
     (case if_none of
        None \<Rightarrow> False
      | Some h \<Rightarrow> h \<noteq> [] \<and> etag \<in> set (map strip (split_on CHR '','' h)))"

text \<open>\<^verbatim>\<open>"gzip" in self.headers.get("Accept-Encoding", "")\<close>: a substring test.\<close>

definition accepts_gzip :: "request \<Rightarrow> bool" where
  "accepts_gzip rq = sublist ''gzip'' (case accept_encoding rq of None \<Rightarrow> [] | Some a \<Rightarrow> a)"

subsection \<open>The cache of compressed bodies\<close>

text \<open>\<^verbatim>\<open>open(p, "rb").read()\<close>.\<close>

definition read_file :: "world \<Rightarrow> path \<Rightarrow> exn + bytes" where
  "read_file w p =
     (case nodes w p of
        None \<Rightarrow> Inl (OSError ''[Errno 2] No such file or directory'')
      | Some (Dir s m) \<Rightarrow> Inl (OSError ''[Errno 21] Is a directory'')
      | Some (File c m r) \<Rightarrow> if r then Inr c else Inl (OSError ''[Errno 13] Permission denied''))"

text \<open>\<^verbatim>\<open>_gzip_cached\<close> under \<^verbatim>\<open>lru_cache(maxsize=1024)\<close>: the cache is keyed by path,
  modification time and size and kept most recently used first; a hit returns the stored
  bytes, a miss reads and compresses the file and stores the result, dropping the least
  recently used entry when full; a call that raises stores nothing.\<close>

type_synonym cache_key = "path \<times> int \<times> nat"
type_synonym gzip_cache = "(cache_key \<times> bytes) list"

definition gzip_cached :: "codec \<Rightarrow> world \<Rightarrow> cache_key \<Rightarrow> gzip_cache \<Rightarrow> (exn + bytes) \<times> gzip_cache" where
  "gzip_cached c w key cache =
     (case map_of cache key of
        Some b \<Rightarrow> (Inr b, (key, b) # filter (\<lambda>kv. fst kv \<noteq> key) cache)
      | None \<Rightarrow>
          (case read_file w (fst key) of
             Inl x \<Rightarrow> (Inl x, cache)
           | Inr raw \<Rightarrow> (Inr (gzip c raw), take 1024 ((key, gzip c raw) # cache))))"

subsection \<open>\<^verbatim>\<open>_serve_file\<close>, \<^verbatim>\<open>do_GET\<close> and \<^verbatim>\<open>do_HEAD\<close>\<close>

definition send_response :: "codec \<Rightarrow> (string \<times> string) list" where
  "send_response c = [(''Server'', server_header c), (''Date'', date_header c)]"

text \<open>The compression decision: \<^verbatim>\<open>use_gzip\<close>.\<close>

definition use_gzip :: "string \<Rightarrow> node \<Rightarrow> request \<Rightarrow> bool" where
  "use_gzip ext st rq = (ext \<in> set COMPRESSIBLE \<and> 256 < st_size st \<and> accepts_gzip rq)"

definition gzip_headers :: "(string \<times> string) list" where
  "gzip_headers = [(''Content-Encoding'', ''gzip''), (''Vary'', ''Accept-Encoding'')]"

definition not_modified :: "codec \<Rightarrow> string \<Rightarrow> string \<Rightarrow> reply" where
  "not_modified c etag ext =
     Reply 304
       (send_response c @ [(''ETag'', etag), (''Cache-Control'', cache_control ext)]
        @ (if ext \<in> set COMPRESSIBLE then [(''Vary'', ''Accept-Encoding'')] else [])
        @ [(''Access-Control-Allow-Origin'', ''*'')])
       None"

definition head_reply :: "codec \<Rightarrow> string \<Rightarrow> string \<Rightarrow> node \<Rightarrow> bytes option \<Rightarrow> reply" where
  "head_reply c etag ext st gz =
     Reply 200
       (send_response c @ [(''Content-Type'', content_type ext)]
        @ (case gz of
             Some b \<Rightarrow> (''Content-Length'', str_nat (length b)) # gzip_headers
           | None \<Rightarrow> [(''Content-Length'', str_nat (st_size st))])
        @ [(''ETag'', etag), (''Cache-Control'', cache_control ext),
           (''Last-Modified'', last_modified c (st_mtime_ns st)),
           (''Access-Control-Allow-Origin'', ''*'')])
       None"

definition get_reply :: "codec \<Rightarrow> string \<Rightarrow> string \<Rightarrow> node \<Rightarrow> bool \<Rightarrow> bytes \<Rightarrow> reply" where
  "get_reply c etag ext st gz b =
     Reply 200
       (send_response c @ [(''Content-Type'', content_type ext),
           (''Content-Length'', str_nat (length b)),
           (''ETag'', etag), (''Cache-Control'', cache_control ext),
           (''Last-Modified'', last_modified c (st_mtime_ns st))]
        @ (if gz then gzip_headers else [])
        @ [(''Access-Control-Allow-Origin'', ''*'')])
       (Some b)"

text \<open>\<^verbatim>\<open>_serve_file(fp, head_only)\<close>. \<open>Inl\<close> is an exception that leaves the handler: the
  read inside \<^verbatim>\<open>_gzip_cached\<close> is not guarded.\<close>

definition serve_file ::
  "codec \<Rightarrow> world \<Rightarrow> path \<Rightarrow> request \<Rightarrow> bool \<Rightarrow> gzip_cache \<Rightarrow> (exn + reply) \<times> gzip_cache" where
  "serve_file c w fp rq head_only cache =
     (case nodes w fp of
        None \<Rightarrow> (Inr (ErrorReply 404), cache)
      | Some st \<Rightarrow>
          (let etag = make_etag st; ext = lower (suffix_of fp) in
           if inm_matches etag (if_none_match rq) then (Inr (not_modified c etag ext), cache)
           else if use_gzip ext st rq then
             (case gzip_cached c w (fp, st_mtime_ns st, st_size st) cache of
                (Inl x, cache1) \<Rightarrow> (Inl x, cache1)
              | (Inr b, cache1) \<Rightarrow>
                  if head_only then (Inr (head_reply c etag ext st (Some b)), cache1)
                  else (Inr (get_reply c etag ext st True b), cache1))
           else if head_only then (Inr (head_reply c etag ext st None), cache)
           else
             (case read_file w fp of
                Inl x \<Rightarrow> (Inr (ErrorReply 500), cache)
              | Inr b \<Rightarrow> (Inr (get_reply c etag ext st False b), cache))))"

definition handle :: "env \<Rightarrow> codec \<Rightarrow> bool \<Rightarrow> request \<Rightarrow> world \<Rightarrow> gzip_cache \<Rightarrow>
    ((exn + reply) \<times> gzip_cache) \<times> world" where
  "handle e c head_only rq w cache =
     (case resolve_path e c (req_path rq) w of
        (Inl x, w1) \<Rightarrow> ((Inl x, cache), w1)
      | (Inr None, w1) \<Rightarrow> ((Inr (ErrorReply 404), cache), w1)
      | (Inr (Some fp), w1) \<Rightarrow> (serve_file c w1 fp rq head_only cache, w1))"

definition do_GET :: "env \<Rightarrow> codec \<Rightarrow> request \<Rightarrow> world \<Rightarrow> gzip_cache \<Rightarrow>
    ((exn + reply) \<times> gzip_cache) \<times> world" where
  "do_GET e c rq w cache = handle e c False rq w cache"

definition do_HEAD :: "env \<Rightarrow> codec \<Rightarrow> request \<Rightarrow> world \<Rightarrow> gzip_cache \<Rightarrow>
    ((exn + reply) \<times> gzip_cache) \<times> world" where
  "do_HEAD e c rq w cache = handle e c True rq w cache"



text \<open>The digits of \<^verbatim>\<open>format(i, "x")\<close>.\<close>

definition is_hex_digit :: "char \<Rightarrow> bool" where
  "is_hex_digit c = (c \<in> set ''0123456789abcdef'')"

text \<open>What \<^verbatim>\<open>_gzip_cached\<close> returns for a readable file with the given content: the
  stored bytes when the key is in the cache, the compressed content otherwise.\<close>

definition cached_body :: "codec \<Rightarrow> gzip_cache \<Rightarrow> cache_key \<Rightarrow> bytes \<Rightarrow> bytes" where
  "cached_body c cache key dat = (case map_of cache key of Some b \<Rightarrow> b | None \<Rightarrow> gzip c dat)"

section \<open>A small concrete mirror\<close>

text \<open>A file system without symbolic links, on which \<^verbatim>\<open>Path.resolve()\<close> removes
  \<^verbatim>\<open>..\<close> components lexically, and a tree with one mirrored file and one file next to
  the mirror root, stored under the spelling by which the manifest reaches it.\<close>

fun normalise :: "path \<Rightarrow> path \<Rightarrow> path" where
  "normalise acc [] = rev acc"
| "normalise acc (x # xs) =
     (if x = ''..'' then normalise (tl acc) xs else normalise (x # acc) xs)"

definition lexical_resolve :: "path \<Rightarrow> exn + path" where
  "lexical_resolve p = Inr (normalise [] p)"

definition demo_env :: env where
  "demo_env =
     \<lparr>root_dir = [''srv''], resolve = lexical_resolve,
      net = (\<lambda>u n. Failure ''timed out''), clock_ns = 7, as_completed = (\<lambda>rs. rs)\<rparr>"

definition demo_world :: world where
  "demo_world =
     \<lparr>nodes = [[''srv'', ''site'', ''a.js''] \<mapsto> File ''var a;'' 5 True,
               [''srv'', ''site'', ''..'', ''secret.txt''] \<mapsto> File ''k'' 1 True],
      trace = []\<rparr>"

text \<open>An origin whose first answer is a timeout and whose later answers are empty bodies,
  and one that always answers 503.\<close>

definition flaky_env :: env where
  "flaky_env = demo_env\<lparr>net := (\<lambda>u n. if n = 0 then Failure ''timed out'' else Body [Chunk []])\<rparr>"

definition busy_env :: env where
  "busy_env = demo_env\<lparr>net := (\<lambda>u n. HTTPError 503 ''HTTP Error 503: Service Unavailable'')\<rparr>"



text \<open>Standard library results for the examples of the server (the stand-in for
  compression keeps the first 40 bytes), and a mirror that holds one script of 300 bytes.\<close>

definition demo_codec :: codec where
  "demo_codec =
     \<lparr>unquote = (\<lambda>s. s), gzip = (\<lambda>b. take 40 b),
      last_modified = (\<lambda>m. ''Thu, 01 Jan 1970 00:00:00 GMT''),
      server_header = ''HomDGCat/1.0 Python/3.11.4'',
      date_header = ''Wed, 04 Nov 2026 10:00:00 GMT''\<rparr>"

definition big_world :: world where
  "big_world =
     \<lparr>nodes = [[''srv'', ''site'', ''big.js''] \<mapsto> File (replicate 300 CHR ''a'') 5 True],
      trace = []\<rparr>"

section \<open>The guard and the existence check\<close>

lemma guard_fst: "fst (guard e p w) = fst (guard e p w')"
  by (simp add: guard_def Let_def split: sum.splits)

lemma guard_nodes: "nodes (snd (guard e p w)) = nodes w"
  by (simp add: guard_def Let_def emit_def split: sum.splits)

lemma guard_trace:
  "\<exists>evs. trace (snd (guard e p w)) = trace w @ evs \<and> set evs \<subseteq> {FsResolve p, FsResolve (SITE_DIR e)}"
  by (simp add: guard_def Let_def emit_def split: sum.splits)

lemma guard_escapes:
  "escapes e p \<Longrightarrow> guard e p w = (Inr False, emit (FsResolve (SITE_DIR e)) (emit (FsResolve p) w))"
  by (simp add: guard_def escapes_def Let_def split: sum.splits)

lemma exists_nonempty_nodes: "nodes (snd (exists_nonempty p w)) = nodes w"
  by (simp add: exists_nonempty_def Let_def emit_def)

lemma exists_nonempty_fst: "nodes w = nodes w' \<Longrightarrow> fst (exists_nonempty p w) = fst (exists_nonempty p w')"
  by (simp add: exists_nonempty_def Let_def emit_def exists_path_def size_of_def)

lemma exists_nonempty_trace:
  "\<exists>evs. trace (snd (exists_nonempty p w)) = trace w @ evs \<and> set evs \<subseteq> {FsStat p}"
  by (simp add: exists_nonempty_def Let_def emit_def)

lemma file_ok_unfold:
  "file_ok e p w =
     (case fst (guard e (joinpath (SITE_DIR e) (lstrip_slash p)) w) of
        Inl x \<Rightarrow> (Inl x, snd (guard e (joinpath (SITE_DIR e) (lstrip_slash p)) w))
      | Inr False \<Rightarrow> (Inr False, snd (guard e (joinpath (SITE_DIR e) (lstrip_slash p)) w))
      | Inr True \<Rightarrow>
          (Inr (fst (exists_nonempty (joinpath (SITE_DIR e) (lstrip_slash p))
                  (snd (guard e (joinpath (SITE_DIR e) (lstrip_slash p)) w)))),
           snd (exists_nonempty (joinpath (SITE_DIR e) (lstrip_slash p))
                  (snd (guard e (joinpath (SITE_DIR e) (lstrip_slash p)) w)))))"
  by (cases "guard e (joinpath (SITE_DIR e) (lstrip_slash p)) w")
     (simp add: file_ok_def Let_def split: sum.splits bool.splits prod.splits)

lemma file_ok_nodes: "nodes (snd (file_ok e p w)) = nodes w"
  by (simp add: file_ok_unfold guard_nodes exists_nonempty_nodes split: sum.splits bool.splits)

lemma file_ok_fst:
  assumes "nodes w = nodes w'"
  shows "fst (file_ok e p w) = fst (file_ok e p w')"
proof -
  let ?lp = "joinpath (SITE_DIR e) (lstrip_slash p)"
  have g: "fst (guard e ?lp w) = fst (guard e ?lp w')" by (rule guard_fst)
  have n: "nodes (snd (guard e ?lp w)) = nodes (snd (guard e ?lp w'))"
    by (simp add: guard_nodes assms)
  have x: "fst (exists_nonempty ?lp (snd (guard e ?lp w))) = fst (exists_nonempty ?lp (snd (guard e ?lp w')))"
    by (rule exists_nonempty_fst [OF n])
  show ?thesis
    by (simp add: file_ok_unfold g x split: sum.splits bool.splits)
qed

lemma no_net_append:
  "trace w1 = trace w @ evs \<Longrightarrow> \<forall>ev\<in>set evs. \<not> is_net ev \<Longrightarrow>
   trace w2 = trace w1 @ evs' \<Longrightarrow> \<forall>ev\<in>set evs'. \<not> is_net ev \<Longrightarrow>
   \<exists>evs''. trace w2 = trace w @ evs'' \<and> (\<forall>ev\<in>set evs''. \<not> is_net ev)"
  by auto

lemma guard_quiet:
  "\<exists>evs. trace (snd (guard e p w)) = trace w @ evs \<and> (\<forall>ev\<in>set evs. \<not> is_net ev)"
proof -
  obtain evs where "trace (snd (guard e p w)) = trace w @ evs"
    and "set evs \<subseteq> {FsResolve p, FsResolve (SITE_DIR e)}"
    using guard_trace by blast
  moreover have "\<forall>ev\<in>set evs. \<not> is_net ev"
    using \<open>set evs \<subseteq> _\<close> by (auto simp: is_net_def)
  ultimately show ?thesis by blast
qed

lemma exists_nonempty_quiet:
  "\<exists>evs. trace (snd (exists_nonempty p w)) = trace w @ evs \<and> (\<forall>ev\<in>set evs. \<not> is_net ev)"
proof -
  obtain evs where "trace (snd (exists_nonempty p w)) = trace w @ evs"
    and "set evs \<subseteq> {FsStat p}"
    using exists_nonempty_trace by blast
  moreover have "\<forall>ev\<in>set evs. \<not> is_net ev"
    using \<open>set evs \<subseteq> _\<close> by (auto simp: is_net_def)
  ultimately show ?thesis by blast
qed

lemma file_ok_trace:
  "\<exists>evs. trace (snd (file_ok e p w)) = trace w @ evs \<and> (\<forall>ev\<in>set evs. \<not> is_net ev)"
proof -
  let ?lp = "joinpath (SITE_DIR e) (lstrip_slash p)"
  let ?w1 = "snd (guard e ?lp w)"
  obtain evs where 1: "trace ?w1 = trace w @ evs" "\<forall>ev\<in>set evs. \<not> is_net ev"
    using guard_quiet by blast
  obtain evs' where 2: "trace (snd (exists_nonempty ?lp ?w1)) = trace ?w1 @ evs'"
    "\<forall>ev\<in>set evs'. \<not> is_net ev"
    using exists_nonempty_quiet by blast
  have 3: "\<exists>evs''. trace (snd (exists_nonempty ?lp ?w1)) = trace w @ evs'' \<and> (\<forall>ev\<in>set evs''. \<not> is_net ev)"
    using no_net_append [OF 1 2] .
  show ?thesis
    using 1 3 by (simp add: file_ok_unfold split: sum.splits bool.splits)
qed

lemma file_ok_escapes:
  "escapes e (joinpath (SITE_DIR e) (lstrip_slash p)) \<Longrightarrow> fst (file_ok e p w) = Inr False"
  by (simp add: file_ok_def Let_def guard_escapes)

lemma download_one_escapes:
  "escapes e (joinpath (SITE_DIR e) (lstrip_slash p)) \<Longrightarrow>
   download_one e p retries w =
     ((Some False, p, Msg ''path traversal blocked''),
      emit (FsResolve (SITE_DIR e)) (emit (FsResolve (joinpath (SITE_DIR e) (lstrip_slash p))) w))"
  by (simp add: download_one_def Let_def guard_escapes)


lemma download_one_unfold:
  "download_one e p retries w =
     (let lp = joinpath (SITE_DIR e) (lstrip_slash p); w1 = snd (guard e lp w) in
      case fst (guard e lp w) of
        Inl x \<Rightarrow> ((Some False, p, Msg (str_exn x)), w1)
      | Inr False \<Rightarrow> ((Some False, p, Msg ''path traversal blocked''), w1)
      | Inr True \<Rightarrow>
          (let w2 = snd (exists_nonempty lp w1) in
           if fst (exists_nonempty lp w1) then ((None, p, Msg ''exists''), w2)
           else
             (case mkdir_parents e (parent lp) w2 of
                (Some x, w3) \<Rightarrow> ((Some False, p, Msg (str_exn x)), w3)
              | (None, w3) \<Rightarrow>
                  attempts e p (full_url p) lp (tmp_sibling lp) retries [0..<nat retries] w3)))"
  by (cases "guard e (joinpath (SITE_DIR e) (lstrip_slash p)) w";
      cases "exists_nonempty (joinpath (SITE_DIR e) (lstrip_slash p))
               (snd (guard e (joinpath (SITE_DIR e) (lstrip_slash p)) w))")
     (simp add: download_one_def Let_def split: sum.splits bool.splits)

lemma net_requests_quiet:
  "trace w' = trace w @ evs \<Longrightarrow> \<forall>ev\<in>set evs. \<not> is_net ev \<Longrightarrow> net_requests w w' = []"
  by (simp add: net_requests_def new_events_def)

lemma download_one_present:
  assumes "fst (file_ok e p w) = Inr True"
  shows "fst (download_one e p retries w) = (None, p, Msg ''exists'')"
    and "nodes (snd (download_one e p retries w)) = nodes w"
    and "net_requests w (snd (download_one e p retries w)) = []"
proof -
  let ?lp = "joinpath (SITE_DIR e) (lstrip_slash p)"
  let ?w1 = "snd (guard e ?lp w)"
  from assms have g: "fst (guard e ?lp w) = Inr True" and x: "fst (exists_nonempty ?lp ?w1)"
    by (auto simp: file_ok_unfold split: sum.splits bool.splits)
  have d: "download_one e p retries w = ((None, p, Msg ''exists''), snd (file_ok e p w))"
    by (simp add: download_one_unfold file_ok_unfold Let_def g x)
  show "fst (download_one e p retries w) = (None, p, Msg ''exists'')" by (simp add: d)
  show "nodes (snd (download_one e p retries w)) = nodes w" by (simp add: d file_ok_nodes)
  obtain evs where "trace (snd (file_ok e p w)) = trace w @ evs" "\<forall>ev\<in>set evs. \<not> is_net ev"
    using file_ok_trace by blast
  then show "net_requests w (snd (download_one e p retries w)) = []"
    by (simp add: d net_requests_quiet)
qed

lemma download_one_local_exists:
  assumes "exists_path w (joinpath (SITE_DIR e) (lstrip_slash p))"
      and "0 < size_of w (joinpath (SITE_DIR e) (lstrip_slash p))"
  shows "net_requests w (snd (download_one e p retries w)) = []"
proof -
  let ?lp = "joinpath (SITE_DIR e) (lstrip_slash p)"
  let ?w1 = "snd (guard e ?lp w)"
  have n: "nodes ?w1 = nodes w" by (rule guard_nodes)
  have x: "fst (exists_nonempty ?lp ?w1)"
    using assms n by (simp add: exists_nonempty_def Let_def emit_def exists_path_def size_of_def)
  obtain evs where 1: "trace ?w1 = trace w @ evs" "\<forall>ev\<in>set evs. \<not> is_net ev"
    using guard_quiet by blast
  obtain evs' where 2: "trace (snd (exists_nonempty ?lp ?w1)) = trace ?w1 @ evs'"
    "\<forall>ev\<in>set evs'. \<not> is_net ev"
    using exists_nonempty_quiet by blast
  obtain evs'' where 3: "trace (snd (exists_nonempty ?lp ?w1)) = trace w @ evs''"
    "\<forall>ev\<in>set evs''. \<not> is_net ev"
    using no_net_append [OF 1 2] by blast
  show ?thesis
    by (simp add: download_one_unfold Let_def x net_requests_quiet [OF 1] net_requests_quiet [OF 3]
        split: sum.splits bool.splits)
qed

lemma pending_nodes: "nodes (snd (pending e ps w)) = nodes w"
proof (induction ps arbitrary: w)
  case Nil
  then show ?case by simp
next
  case (Cons p ps)
  obtain v w1 where f: "file_ok e p w = (v, w1)" by (cases "file_ok e p w")
  then have n1: "nodes w1 = nodes w" using file_ok_nodes [of e p w] by simp
  obtain u w2 where q: "pending e ps w1 = (u, w2)" by (cases "pending e ps w1")
  then have n2: "nodes w2 = nodes w1" using Cons.IH [of w1] by simp
  show ?case using f q n1 n2 by (simp split: sum.splits)
qed

lemma pending_quiet:
  "\<exists>evs. trace (snd (pending e ps w)) = trace w @ evs \<and> (\<forall>ev\<in>set evs. \<not> is_net ev)"
proof (induction ps arbitrary: w)
  case Nil
  then show ?case by simp
next
  case (Cons p ps)
  obtain v w1 where f: "file_ok e p w = (v, w1)" by (cases "file_ok e p w")
  obtain evs where 1: "trace w1 = trace w @ evs" "\<forall>ev\<in>set evs. \<not> is_net ev"
    using file_ok_trace [of e p w] f by auto
  obtain u w2 where q: "pending e ps w1 = (u, w2)" by (cases "pending e ps w1")
  obtain evs' where 2: "trace w2 = trace w1 @ evs'" "\<forall>ev\<in>set evs'. \<not> is_net ev"
    using Cons.IH [of w1] q by auto
  have 3: "\<exists>evs''. trace w2 = trace w @ evs'' \<and> (\<forall>ev\<in>set evs''. \<not> is_net ev)"
    using no_net_append [OF 1 2] .
  show ?case using f q 1 3 by (auto split: sum.splits)
qed

lemma pending_all_present:
  "\<forall>p\<in>set ps. fst (file_ok e p w) = Inr True \<Longrightarrow> fst (pending e ps w) = Inr []"
proof (induction ps arbitrary: w)
  case Nil
  then show ?case by simp
next
  case (Cons p ps)
  obtain v w1 where f: "file_ok e p w = (v, w1)" by (cases "file_ok e p w")
  then have n1: "nodes w1 = nodes w" using file_ok_nodes [of e p w] by simp
  have v: "v = Inr True" using Cons.prems f by simp
  have "\<forall>q\<in>set ps. fst (file_ok e q w1) = Inr True"
    using Cons.prems file_ok_fst [OF n1] by simp
  then have "fst (pending e ps w1) = Inr []" by (rule Cons.IH)
  then obtain w2 where "pending e ps w1 = (Inr [], w2)" by (cases "pending e ps w1") simp
  then show ?case using f v by simp
qed

lemma pending_keeps_rejected:
  "pending e ps w = (Inr td, w') \<Longrightarrow> p \<in> set ps \<Longrightarrow> fst (file_ok e p w) = Inr False \<Longrightarrow> p \<in> set td"
proof (induction ps arbitrary: w td w')
  case Nil
  then show ?case by simp
next
  case (Cons q ps)
  obtain v w1 where f: "file_ok e q w = (v, w1)" by (cases "file_ok e q w")
  then have n1: "nodes w1 = nodes w" using file_ok_nodes [of e q w] by simp
  obtain u w2 where r: "pending e ps w1 = (u, w2)" by (cases "pending e ps w1")
  from Cons.prems(1) f r obtain b rest where v: "v = Inr b" and u: "u = Inr rest"
    and td: "td = (if b then rest else q # rest)"
    by (auto split: sum.splits)
  show ?case
  proof (cases "p = q")
    case True
    then have "b = False" using Cons.prems(3) f v by simp
    then show ?thesis using td True by simp
  next
    case False
    then have "p \<in> set ps" using Cons.prems(2) by simp
    moreover have "fst (file_ok e p w1) = Inr False"
      using Cons.prems(3) file_ok_fst [OF n1] by simp
    ultimately have "p \<in> set rest" using Cons.IH r u by simp
    then show ?thesis using td by simp
  qed
qed


lemma status_loop_counts:
  "status_loop e ps s w = (Inr s', w') \<Longrightarrow>
     existing s' + missing s' = existing s + missing s + length ps
   \<and> missing s + length (filter (\<lambda>q. escapes e (joinpath (SITE_DIR e) (lstrip_slash q))) ps) \<le> missing s'"
proof (induction ps arbitrary: s w)
  case Nil
  then show ?case by simp
next
  case (Cons p ps)
  obtain v w1 where f: "file_ok e p w = (v, w1)" by (cases "file_ok e p w")
  show ?case
  proof (cases v)
    case (Inl x)
    then show ?thesis using Cons.prems f by simp
  next
    case (Inr b)
    show ?thesis
    proof (cases b)
      case True
      then have ne: "\<not> escapes e (joinpath (SITE_DIR e) (lstrip_slash p))"
        using file_ok_escapes [of e p w] f Inr by auto
      from Cons.prems f Inr True have
        "status_loop e ps
           (s\<lparr>existing := existing s + 1,
              total_size := total_size s + size_of (emit (FsStat (joinpath (SITE_DIR e) (lstrip_slash p))) w1)
                 (joinpath (SITE_DIR e) (lstrip_slash p))\<rparr>)
           (emit (FsStat (joinpath (SITE_DIR e) (lstrip_slash p))) w1) = (Inr s', w')"
        by (simp add: Let_def)
      from Cons.IH [OF this] show ?thesis using ne by simp
    next
      case False
      from Cons.prems f Inr False have
        "status_loop e ps (s\<lparr>missing := missing s + 1, cats := bump (category p) (cats s)\<rparr>) w1 = (Inr s', w')"
        by simp
      from Cons.IH [OF this] show ?thesis by simp
    qed
  qed
qed

text \<open>
  Claim C10. When the resolved path of an entry lies outside the resolved mirror root,
  \<^verbatim>\<open>_file_ok\<close> returns \<^verbatim>\<open>False\<close> and raises nothing, in every state of the file
  system and whether or not a file is stored at the path. Hence \<^verbatim>\<open>cmd_status\<close>, when it
  completes, counts every entry as existing or missing and counts at least the escaping
  entries as missing; \<^verbatim>\<open>cmd_download\<close> keeps the entry in its list of pending downloads;
  and \<^verbatim>\<open>download_one\<close> answers the blocked failure for it, never the already-present
  outcome.
\<close>

theorem file_ok_rejects_outside_root:
  assumes "escapes e (joinpath (SITE_DIR e) (lstrip_slash p))"
  shows "fst (file_ok e p w) = Inr False
    \<and> (\<forall>s. fst (cmd_status e all_paths w) = Inr s \<longrightarrow>
          existing s + missing s = length all_paths
        \<and> length (filter (\<lambda>q. escapes e (joinpath (SITE_DIR e) (lstrip_slash q))) all_paths) \<le> missing s)
    \<and> (\<forall>to_download. p \<in> set all_paths \<longrightarrow> fst (pending e all_paths w) = Inr to_download \<longrightarrow>
          p \<in> set to_download)
    \<and> fst (download_one e p retries w) = (Some False, p, Msg ''path traversal blocked'')"
proof -
  have 1: "fst (file_ok e p w) = Inr False" using assms by (rule file_ok_escapes)
  have 2: "existing s + missing s = length all_paths
        \<and> length (filter (\<lambda>q. escapes e (joinpath (SITE_DIR e) (lstrip_slash q))) all_paths) \<le> missing s"
    if "fst (cmd_status e all_paths w) = Inr s" for s
  proof -
    from that obtain w' where "status_loop e all_paths status0 w = (Inr s, w')"
      by (cases "status_loop e all_paths status0 w") (simp add: cmd_status_def)
    from status_loop_counts [OF this] show ?thesis by (simp add: status0_def)
  qed
  have 3: "p \<in> set td" if "p \<in> set all_paths" "fst (pending e all_paths w) = Inr td" for td
  proof -
    from that(2) obtain w' where "pending e all_paths w = (Inr td, w')"
      by (cases "pending e all_paths w") simp
    from pending_keeps_rejected [OF this that(1) 1] show ?thesis .
  qed
  have 4: "fst (download_one e p retries w) = (Some False, p, Msg ''path traversal blocked'')"
    using assms by (simp add: download_one_escapes)
  show ?thesis using 1 2 3 4 by blast
qed

theorem file_ok_rejects_outside_root_witness:
  "escapes demo_env (joinpath (SITE_DIR demo_env) (lstrip_slash ''/../secret.txt''))
   \<and> exists_path demo_world (joinpath (SITE_DIR demo_env) (lstrip_slash ''/../secret.txt''))
   \<and> 0 < size_of demo_world (joinpath (SITE_DIR demo_env) (lstrip_slash ''/../secret.txt''))
   \<and> fst (file_ok demo_env ''/../secret.txt'' demo_world) = Inr False
   \<and> fst (cmd_status demo_env [''/a.js'', ''/../secret.txt''] demo_world) =
        Inr \<lparr>existing = 1, missing = 1, total_size = 6, cats = [(''..'', 1)]\<rparr>
   \<and> fst (pending demo_env [''/a.js'', ''/../secret.txt''] demo_world) = Inr [''/../secret.txt'']
   \<and> fst (download_one demo_env ''/../secret.txt'' 3 demo_world) =
        (Some False, ''/../secret.txt'', Msg ''path traversal blocked'')"
proof -
  have h: "escapes demo_env (joinpath (SITE_DIR demo_env) (lstrip_slash ''/../secret.txt''))"
    by code_simp
  have x: "exists_path demo_world (joinpath (SITE_DIR demo_env) (lstrip_slash ''/../secret.txt''))"
    by code_simp
  have s: "fst (cmd_status demo_env [''/a.js'', ''/../secret.txt''] demo_world) =
        Inr \<lparr>existing = 1, missing = 1, total_size = 6, cats = [(''..'', 1)]\<rparr>"
    by code_simp
  have q: "fst (pending demo_env [''/a.js'', ''/../secret.txt''] demo_world) = Inr [''/../secret.txt'']"
    by code_simp
  have z: "0 < size_of demo_world (joinpath (SITE_DIR demo_env) (lstrip_slash ''/../secret.txt''))"
    by code_simp
  show ?thesis
    using h x z s q
      file_ok_rejects_outside_root [OF h, of demo_world "[''/a.js'', ''/../secret.txt'']" 3]
    by simp
qed

text \<open>
  Claim C3. An entry whose local file exists with non-zero size (\<^verbatim>\<open>_file_ok\<close> holds:
  the path is inside the mirror root, exists and is not empty) makes \<^verbatim>\<open>download_one\<close>
  return the already-present outcome, without a network request and without changing the
  file system. Whatever the guard says, an existing non-empty local path never leads to a
  network request. Hence \<^verbatim>\<open>cmd_download\<close> over a manifest all of whose entries are
  present finds nothing to download and performs no network request.
\<close>

theorem download_idempotent:
  "(fst (file_ok e p w) = Inr True \<longrightarrow>
       fst (download_one e p retries w) = (None, p, Msg ''exists'')
     \<and> nodes (snd (download_one e p retries w)) = nodes w
     \<and> net_requests w (snd (download_one e p retries w)) = [])
 \<and> (exists_path w (joinpath (SITE_DIR e) (lstrip_slash p))
       \<and> 0 < size_of w (joinpath (SITE_DIR e) (lstrip_slash p)) \<longrightarrow>
       net_requests w (snd (download_one e p retries w)) = [])
 \<and> ((\<forall>q\<in>set all_paths. fst (file_ok e q w) = Inr True) \<longrightarrow>
       fst (cmd_download e all_paths retries w) = Inr None
     \<and> nodes (snd (cmd_download e all_paths retries w)) = nodes w
     \<and> net_requests w (snd (cmd_download e all_paths retries w)) = [])"
proof -
  have 3: "fst (cmd_download e all_paths retries w) = Inr None
     \<and> nodes (snd (cmd_download e all_paths retries w)) = nodes w
     \<and> net_requests w (snd (cmd_download e all_paths retries w)) = []"
    if a: "\<forall>q\<in>set all_paths. fst (file_ok e q w) = Inr True"
  proof -
    from pending_all_present [OF a] obtain w1 where p: "pending e all_paths w = (Inr [], w1)"
      by (cases "pending e all_paths w") simp
    then have c: "cmd_download e all_paths retries w = (Inr None, w1)"
      by (simp add: cmd_download_def)
    have n: "nodes w1 = nodes w" using pending_nodes [of e all_paths w] p by simp
    obtain evs where "trace w1 = trace w @ evs" "\<forall>ev\<in>set evs. \<not> is_net ev"
      using pending_quiet [of e all_paths w] p by auto
    then have "net_requests w w1 = []" by (rule net_requests_quiet)
    then show ?thesis using c n by simp
  qed
  show ?thesis
    using download_one_present [of e p w retries] download_one_local_exists [of w e p retries] 3
    by blast
qed

theorem download_idempotent_witness:
  "fst (file_ok demo_env ''/a.js'' demo_world) = Inr True
 \<and> fst (download_one demo_env ''/a.js'' 3 demo_world) = (None, ''/a.js'', Msg ''exists'')
 \<and> net_requests demo_world (snd (download_one demo_env ''/a.js'' 3 demo_world)) = []
 \<and> fst (cmd_download demo_env [''/a.js''] 3 demo_world) = Inr None
 \<and> net_requests demo_world (snd (cmd_download demo_env [''/a.js''] 3 demo_world)) = []"
proof -
  have h: "fst (file_ok demo_env ''/a.js'' demo_world) = Inr True" by code_simp
  then have a: "\<forall>q\<in>set [''/a.js'']. fst (file_ok demo_env q demo_world) = Inr True" by simp
  show ?thesis
    using h a download_idempotent [of demo_env "''/a.js''" demo_world 3 "[''/a.js'']"]
    by simp
qed

section \<open>The retry loop\<close>

lemma is_dir_trace_upd [simp]: "is_dir (w\<lparr>trace := t\<rparr>) p = is_dir w p"
  by (simp add: is_dir_def)

lemma is_dir_nodes_upd [simp]:
  "is_dir (w\<lparr>nodes := f\<rparr>) p = (case f p of Some (Dir s m) \<Rightarrow> True | _ \<Rightarrow> False)"
  by (simp add: is_dir_def)

lemma is_dir_emit [simp]: "is_dir (emit ev w) p = is_dir w p"
  by (simp add: is_dir_def emit_def)

lemma unlink_not_dir:
  "\<not> is_dir w p \<Longrightarrow>
   unlink_missing_ok p w = (None, w\<lparr>nodes := (nodes w)(p := None), trace := trace w @ [FsUnlink p]\<rparr>)"
  by (auto simp: unlink_missing_ok_def is_dir_def emit_def Let_def split: option.splits node.splits)

lemma open_not_dir:
  "\<not> is_dir w p \<Longrightarrow>
   open_wb e p w =
     (None, w\<lparr>nodes := (nodes w)(p \<mapsto> File [] (clock_ns e) True), trace := trace w @ [FsOpen p]\<rparr>)"
  by (auto simp: open_wb_def is_dir_def emit_def Let_def split: option.splits node.splits)

lemma on_exception_not_dir:
  "\<not> is_dir w tmp \<Longrightarrow>
   on_exception p tmp retries a msg w =
     (if int a < retries - 1
      then Next (w\<lparr>nodes := (nodes w)(tmp := None), trace := trace w @ [FsUnlink tmp, Sleep (2 ^ a)]\<rparr>)
      else Return (Some False, p, Msg msg)
             (w\<lparr>nodes := (nodes w)(tmp := None), trace := trace w @ [FsUnlink tmp]\<rparr>))"
  by (simp add: on_exception_def unlink_not_dir emit_def)

lemma on_http_error_not_dir:
  "\<not> is_dir w tmp \<Longrightarrow>
   on_http_error p tmp retries a code w =
     (if code = 404 then Return (Some False, p, Msg ''404'')
             (w\<lparr>nodes := (nodes w)(tmp := None), trace := trace w @ [FsUnlink tmp]\<rparr>)
      else if int a < retries - 1
      then Next (w\<lparr>nodes := (nodes w)(tmp := None), trace := trace w @ [FsUnlink tmp, Sleep (2 ^ a)]\<rparr>)
      else Next (w\<lparr>nodes := (nodes w)(tmp := None), trace := trace w @ [FsUnlink tmp]\<rparr>))"
  by (simp add: on_http_error_def unlink_not_dir emit_def)

lemma stream_copy_total:
  "stream_copy rs buf n = (r, buf', n') \<Longrightarrow> n' = n + (length buf' - length buf) \<and> length buf \<le> length buf'"
  by (induction rs buf n rule: stream_copy.induct) (auto split: if_splits)

lemma attempt_empty:
  assumes "completes_empty (net e url a)" and "\<not> is_dir w tmp"
  shows "\<exists>w'. attempt_once e p url lp tmp retries a w = Return (Some False, p, Msg ''empty'') w'
     \<and> nodes w' = (nodes w)(tmp := None)
     \<and> trace w' = trace w @ [NetGet url, FsOpen tmp, FsUnlink tmp]"
proof -
  from assms(1) obtain reads where r: "net e url a = Body reads"
    by (cases "net e url a") auto
  obtain x buf n where s: "stream_copy reads [] 0 = (x, buf, n)"
    by (cases "stream_copy reads [] 0") auto
  with assms(1) r have x: "x = None" and n: "n = 0" by auto
  show ?thesis
    using assms(2)
    by (simp add: attempt_once_def Let_def r emit_def open_not_dir unlink_not_dir s x n write_all_def)
qed

lemma attempt_retry:
  assumes "retryable (net e url a)" and "\<not> is_dir w tmp" and "int a < retries - 1"
  shows "\<exists>w'. attempt_once e p url lp tmp retries a w = Next w'
     \<and> nodes w' = (nodes w)(tmp := None)
     \<and> (\<exists>evs. trace w' = trace w @ NetGet url # evs \<and> filter is_net evs = [])"
proof (cases "net e url a")
  case (HTTPError code m)
  show ?thesis
    using assms HTTPError
    by (simp add: attempt_once_def Let_def emit_def on_http_error_not_dir is_net_def)
next
  case (Failure m)
  show ?thesis
    using assms Failure
    by (simp add: attempt_once_def Let_def emit_def on_exception_not_dir is_net_def)
next
  case (Body reads)
  obtain x buf n where s: "stream_copy reads [] 0 = (x, buf, n)"
    by (cases "stream_copy reads [] 0") auto
  with assms(1) Body obtain msg where x: "x = Some msg" by auto
  show ?thesis
    using assms(2,3)
    by (simp add: attempt_once_def Let_def Body emit_def open_not_dir s x write_all_def
        on_exception_not_dir is_net_def)
qed

lemma attempts_retry_then_empty:
  assumes "\<forall>j<k. retryable (net e url (a + j))"
      and "completes_empty (net e url (a + k))"
      and "int (a + k) < retries"
      and "\<not> is_dir w tmp"
  shows "fst (attempts e p url lp tmp retries ([a..<a + k + 1] @ rest) w) = (Some False, p, Msg ''empty'')
       \<and> nodes (snd (attempts e p url lp tmp retries ([a..<a + k + 1] @ rest) w)) = (nodes w)(tmp := None)
       \<and> (\<exists>evs. trace (snd (attempts e p url lp tmp retries ([a..<a + k + 1] @ rest) w)) = trace w @ evs
             \<and> length (filter is_net evs) = k + 1)"
  using assms
proof (induction k arbitrary: a w)
  case 0
  obtain w' where "attempt_once e p url lp tmp retries a w = Return (Some False, p, Msg ''empty'') w'"
     "nodes w' = (nodes w)(tmp := None)"
     "trace w' = trace w @ [NetGet url, FsOpen tmp, FsUnlink tmp]"
    using attempt_empty [where e=e and url=url and a=a and w=w and tmp=tmp and p=p and lp=lp
        and retries=retries] 0 by auto
  then show ?case by (simp add: is_net_def)
next
  case (Suc k)
  have l: "[a..<a + Suc k + 1] = a # [Suc a..<Suc a + k + 1]"
    by (simp add: upt_conv_Cons)
  have r0: "retryable (net e url a)" using Suc.prems(1) by force
  have lt: "int a < retries - 1" using Suc.prems(3) by simp
  obtain w1 evs where st: "attempt_once e p url lp tmp retries a w = Next w1"
     and n1: "nodes w1 = (nodes w)(tmp := None)"
     and t1: "trace w1 = trace w @ NetGet url # evs"
     and q: "filter is_net evs = []"
    using attempt_retry [OF r0 Suc.prems(4) lt] by blast
  let ?r = "attempts e p url lp tmp retries ([Suc a..<Suc a + k + 1] @ rest) w1"
  have d: "\<not> is_dir w1 tmp" by (simp add: is_dir_def n1)
  have 1: "\<forall>j<k. retryable (net e url (Suc a + j))"
    using Suc.prems(1) by (metis Suc_less_eq add_Suc_shift)
  have 2: "completes_empty (net e url (Suc a + k))" using Suc.prems(2) by simp
  have 3: "int (Suc a + k) < retries" using Suc.prems(3) by simp
  from Suc.IH [OF 1 2 3 d] obtain evs' where
    ih1: "fst ?r = (Some False, p, Msg ''empty'')"
    and ih2: "nodes (snd ?r) = (nodes w1)(tmp := None)"
    and ih3: "trace (snd ?r) = trace w1 @ evs'"
    and n: "length (filter is_net evs') = k + 1"
    by blast
  have eq: "attempts e p url lp tmp retries ([a..<a + Suc k + 1] @ rest) w = ?r"
    unfolding l by (simp add: st)
  have t: "trace (snd ?r) = trace w @ (NetGet url # evs @ evs')
         \<and> length (filter is_net (NetGet url # evs @ evs')) = Suc k + 1"
    using ih3 n q t1 by (simp add: is_net_def)
  have n2: "nodes (snd ?r) = (nodes w)(tmp := None)" using ih2 n1 by simp
  show ?case
    unfolding eq using ih1 n2 t by blast
qed

lemma hd_lstrip_slash: "lstrip_slash p \<noteq> [] \<Longrightarrow> hd (lstrip_slash p) \<noteq> CHR ''/''"
  unfolding lstrip_slash_def using hd_dropWhile [of "\<lambda>c. c = CHR ''/''" p] by simp

lemma joinpath_lstrip: "joinpath b (lstrip_slash p) = b @ path_parts (lstrip_slash p)"
  using hd_lstrip_slash [of p] by (auto simp: joinpath_def)

lemma local_path_nonempty: "joinpath (SITE_DIR e) (lstrip_slash p) \<noteq> []"
  by (simp add: joinpath_lstrip SITE_DIR_def)

lemma tmp_sibling_neq: "lp \<noteq> [] \<Longrightarrow> tmp_sibling lp \<noteq> lp"
proof
  assume ne: "lp \<noteq> []" and eq: "tmp_sibling lp = lp"
  have "last (tmp_sibling lp) = last lp @ ''.tmp''" by (simp add: tmp_sibling_def)
  with eq show False by simp
qed

lemma length_tmp_sibling: "lp \<noteq> [] \<Longrightarrow> length (tmp_sibling lp) = length lp"
  by (simp add: tmp_sibling_def)

lemma mkdir_chain_frame:
  "trace (snd (mkdir_chain e ds w)) = trace w
   \<and> (\<forall>q. q \<notin> set ds \<longrightarrow> nodes (snd (mkdir_chain e ds w)) q = nodes w q)"
proof (induction ds arbitrary: w)
  case Nil
  then show ?case by simp
next
  case (Cons d ds)
  show ?case
  proof (cases "nodes w d")
    case None
    then show ?thesis
      using Cons.IH [of "w\<lparr>nodes := (nodes w)(d \<mapsto> Dir 4096 (clock_ns e))\<rparr>"] by simp
  next
    case (Some n)
    then show ?thesis using Cons.IH [of w] by (cases n) simp_all
  qed
qed

lemma mkdir_chain_cong:
  "nodes w = nodes w' \<Longrightarrow>
   fst (mkdir_chain e ds w) = fst (mkdir_chain e ds w')
   \<and> nodes (snd (mkdir_chain e ds w)) = nodes (snd (mkdir_chain e ds w'))"
proof (induction ds arbitrary: w w')
  case Nil
  then show ?case by simp
next
  case (Cons d ds)
  show ?case
  proof (cases "nodes w d")
    case None
    have "nodes (w\<lparr>nodes := (nodes w)(d \<mapsto> Dir 4096 (clock_ns e))\<rparr>)
        = nodes (w'\<lparr>nodes := (nodes w')(d \<mapsto> Dir 4096 (clock_ns e))\<rparr>)"
      using Cons.prems by simp
    from Cons.IH [OF this] show ?thesis using None Cons.prems by simp
  next
    case (Some n)
    then show ?thesis using Cons.IH [OF Cons.prems] Cons.prems by (cases n) simp_all
  qed
qed

lemma mkdir_parents_cong:
  "nodes w = nodes w' \<Longrightarrow>
   fst (mkdir_parents e d w) = fst (mkdir_parents e d w')
   \<and> nodes (snd (mkdir_parents e d w)) = nodes (snd (mkdir_parents e d w'))"
  unfolding mkdir_parents_def by (rule mkdir_chain_cong) (simp add: emit_def)

lemma mkdir_parents_frame:
  "trace (snd (mkdir_parents e d w)) = trace w @ [FsMkdir d]
   \<and> (\<forall>q. length d < length q \<longrightarrow> nodes (snd (mkdir_parents e d w)) q = nodes w q)"
proof -
  let ?ds = "map (\<lambda>n. take n d) [1..<Suc (length d)]"
  have "\<And>q. length d < length q \<Longrightarrow> q \<notin> set ?ds" by auto
  then show ?thesis
    unfolding mkdir_parents_def
    using mkdir_chain_frame [of e ?ds "emit (FsMkdir d) w"] by (simp add: emit_def)
qed

lemma exists_nonempty_value:
  "fst (exists_nonempty p w) = (exists_path w p \<and> 0 < size_of w p)"
  by (simp add: exists_nonempty_def Let_def emit_def exists_path_def size_of_def)

text \<open>
  Claim C8. Take an entry inside the mirror root that is not yet present, whose parent
  directories can be made and whose temporary path is not a directory. If attempt \<open>k\<close>
  (below the retry count, every earlier attempt having failed in a retryable way) receives
  a response that is read to its end with no byte, \<^verbatim>\<open>download_one\<close> returns the failure
  \<^verbatim>\<open>empty\<close>; attempt \<open>k\<close> is the last request sent (no retry follows); the temporary
  file does not exist afterwards; and the target path holds what it held before.
\<close>

theorem empty_body_fails_immediately:
  assumes lp: "lp = joinpath (SITE_DIR e) (lstrip_slash p)"
      and inside: "fst (guard e lp w) = Inr True"
      and absent: "\<not> (exists_path w lp \<and> 0 < size_of w lp)"
      and mkdir: "fst (mkdir_parents e (parent lp) w) = None"
      and tmp: "\<not> is_dir w (tmp_sibling lp)"
      and before: "\<forall>j<k. retryable (net e (full_url p) j)"
      and empty: "completes_empty (net e (full_url p) k)"
      and k: "int k < retries"
  shows "fst (download_one e p retries w) = (Some False, p, Msg ''empty'')
       \<and> nodes (snd (download_one e p retries w)) (tmp_sibling lp) = None
       \<and> nodes (snd (download_one e p retries w)) lp = nodes w lp
       \<and> length (net_requests w (snd (download_one e p retries w))) = k + 1"
proof -
  let ?tmp = "tmp_sibling lp"
  let ?w1 = "snd (guard e lp w)"
  let ?w2 = "snd (exists_nonempty lp ?w1)"
  let ?w3 = "snd (mkdir_parents e (parent lp) ?w2)"
  have ne: "lp \<noteq> []" unfolding lp by (rule local_path_nonempty)
  have n1: "nodes ?w1 = nodes w" by (rule guard_nodes)
  have n2: "nodes ?w2 = nodes w" using n1 by (simp add: exists_nonempty_nodes)
  have x: "\<not> fst (exists_nonempty lp ?w1)"
    using absent n1 by (simp add: exists_nonempty_value exists_path_def size_of_def)
  have m: "fst (mkdir_parents e (parent lp) ?w2) = None"
    using mkdir mkdir_parents_cong [OF n2, of e "parent lp"] by simp
  have len: "length (parent lp) < length lp" "length (parent lp) < length ?tmp"
    using ne by (simp_all add: parent_def length_tmp_sibling)
  have n3: "nodes ?w3 lp = nodes w lp" "nodes ?w3 ?tmp = nodes w ?tmp"
    using mkdir_parents_frame [of e "parent lp" ?w2] len n2 by simp_all
  have d3: "\<not> is_dir ?w3 ?tmp" using tmp n3(2) by (simp add: is_dir_def)
  have split_list: "[0..<nat retries] = [0..<0 + k + 1] @ [k + 1..<nat retries]"
  proof -
    have "Suc k \<le> nat retries" using k by linarith
    then obtain m where m: "nat retries = Suc k + m" using le_Suc_ex by blast
    have "[0..<Suc k + m] = [0..<Suc k] @ [Suc k..<Suc k + m]"
      by (rule upt_add_eq_append) simp
    then show ?thesis unfolding m by simp
  qed
  let ?r = "attempts e p (full_url p) lp ?tmp retries [0..<nat retries] ?w3"
  have b: "\<forall>j<k. retryable (net e (full_url p) (0 + j))" using before by simp
  have c: "completes_empty (net e (full_url p) (0 + k))" using empty by simp
  have k': "int (0 + k) < retries" using k by simp
  from attempts_retry_then_empty
    [where lp=lp and rest="[k + 1..<nat retries]", OF b c k' d3, folded split_list]
  obtain evs where r1: "fst ?r = (Some False, p, Msg ''empty'')"
    and r2: "nodes (snd ?r) = (nodes ?w3)(?tmp := None)"
    and r3: "trace (snd ?r) = trace ?w3 @ evs"
    and r4: "length (filter is_net evs) = k + 1"
    by blast
  have d: "download_one e p retries w = ?r"
    using inside x m
    by (cases "mkdir_parents e (parent lp) ?w2")
       (simp add: download_one_unfold lp [symmetric] Let_def)
  obtain e1 where t1: "trace ?w1 = trace w @ e1" and q1: "\<forall>ev\<in>set e1. \<not> is_net ev"
    using guard_quiet by blast
  obtain e2 where t2: "trace ?w2 = trace ?w1 @ e2" and q2: "\<forall>ev\<in>set e2. \<not> is_net ev"
    using exists_nonempty_quiet by blast
  have t3: "trace ?w3 = trace ?w2 @ [FsMkdir (parent lp)]"
    using mkdir_parents_frame [of e "parent lp" ?w2] by simp
  have tr: "trace (snd ?r) = trace w @ (e1 @ e2 @ [FsMkdir (parent lp)] @ evs)"
    using r3 t3 t2 t1 by simp
  have f1: "filter is_net e1 = []" using q1 by (simp add: filter_empty_conv)
  have f2: "filter is_net e2 = []" using q2 by (simp add: filter_empty_conv)
  have cnt: "length (net_requests w (snd ?r)) = k + 1"
    unfolding net_requests_def new_events_def tr using f1 f2 r4 by (simp add: is_net_def)
  have tl: "nodes (snd ?r) lp = nodes w lp"
    using r2 n3(1) tmp_sibling_neq [OF ne] by simp
  show ?thesis
    unfolding d using r1 r2 tl cnt by simp
qed

theorem empty_body_fails_immediately_witness:
  "fst (guard flaky_env (joinpath (SITE_DIR flaky_env) (lstrip_slash ''/b.js'')) demo_world) = Inr True
   \<and> \<not> exists_path demo_world (joinpath (SITE_DIR flaky_env) (lstrip_slash ''/b.js''))
   \<and> fst (mkdir_parents flaky_env (parent (joinpath (SITE_DIR flaky_env) (lstrip_slash ''/b.js''))) demo_world) = None
   \<and> \<not> is_dir demo_world (tmp_sibling (joinpath (SITE_DIR flaky_env) (lstrip_slash ''/b.js'')))
   \<and> retryable (net flaky_env (full_url ''/b.js'') 0)
   \<and> completes_empty (net flaky_env (full_url ''/b.js'') 1)
   \<and> fst (download_one flaky_env ''/b.js'' 3 demo_world) = (Some False, ''/b.js'', Msg ''empty'')
   \<and> nodes (snd (download_one flaky_env ''/b.js'' 3 demo_world))
         (tmp_sibling (joinpath (SITE_DIR flaky_env) (lstrip_slash ''/b.js''))) = None
   \<and> nodes (snd (download_one flaky_env ''/b.js'' 3 demo_world))
         (joinpath (SITE_DIR flaky_env) (lstrip_slash ''/b.js'')) = None
   \<and> length (net_requests demo_world (snd (download_one flaky_env ''/b.js'' 3 demo_world))) = 2"
proof -
  let ?lp = "joinpath (SITE_DIR flaky_env) (lstrip_slash ''/b.js'')"
  have 1: "fst (guard flaky_env ?lp demo_world) = Inr True" by code_simp
  have 2: "\<not> (exists_path demo_world ?lp \<and> 0 < size_of demo_world ?lp)" by code_simp
  have nx: "\<not> exists_path demo_world ?lp" by code_simp
  have 3: "fst (mkdir_parents flaky_env (parent ?lp) demo_world) = None" by code_simp
  have 4: "\<not> is_dir demo_world (tmp_sibling ?lp)" by code_simp
  have 5: "\<forall>j<1. retryable (net flaky_env (full_url ''/b.js'') j)"
    by (simp add: flaky_env_def)
  have r0: "retryable (net flaky_env (full_url ''/b.js'') 0)"
    by (simp add: flaky_env_def)
  have 6: "completes_empty (net flaky_env (full_url ''/b.js'') 1)"
    by (simp add: flaky_env_def)
  have 7: "int 1 < 3" by simp
  have 8: "nodes demo_world ?lp = None" using nx by (simp add: exists_path_def)
  show ?thesis
    using 1 nx 3 4 r0 6 8 empty_body_fails_immediately [OF refl 1 2 3 4 5 6 7]
    by simp
qed

section \<open>Requests sent by the download engine\<close>

lemma quiet_refl [simp]: "quiet w w"
  by (simp add: quiet_def)



lemma quiet_trace_eq: "trace w' = trace w \<Longrightarrow> quiet w w'"
  by (simp add: quiet_def)












lemma gets_only_refl [simp]: "gets_only u w w"
  by (simp add: gets_only_def)













section \<open>The aggregation loop and the failure report\<close>





text \<open>
  Claim C2 at a concrete input. The origin answers 503 to both of two attempts: the loop
  sleeps \<open>2 ^ 0\<close> after the first attempt, discards the temporary file after each, and
  after the last attempt falls through to the fixed text \<^verbatim>\<open>failed\<close>; the description of
  the last error is lost. With a timeout instead of an HTTP error, the same run returns the
  description of the last error.
\<close>

theorem exhausted_http_error_reports_failed:
  "fst (download_one busy_env ''/b.js'' 2 demo_world) = (Some False, ''/b.js'', Msg ''failed'')
 \<and> net busy_env (full_url ''/b.js'') 1 = HTTPError 503 ''HTTP Error 503: Service Unavailable''
 \<and> new_events demo_world (snd (download_one busy_env ''/b.js'' 2 demo_world)) =
     [FsResolve [''srv'', ''site'', ''b.js''], FsResolve [''srv'', ''site''],
      FsStat [''srv'', ''site'', ''b.js''], FsMkdir [''srv'', ''site''],
      NetGet ''https://homdgcat.wiki/b.js'', FsUnlink [''srv'', ''site'', ''b.js.tmp''], Sleep 1,
      NetGet ''https://homdgcat.wiki/b.js'', FsUnlink [''srv'', ''site'', ''b.js.tmp'']]
 \<and> fst (download_one demo_env ''/b.js'' 2 demo_world) = (Some False, ''/b.js'', Msg ''timed out'')"
  by code_simp

lemma split_on_nonempty: "split_on c s \<noteq> []"
  by (induction s) (auto split: list.splits)

lemma split_on_none: "c \<notin> set s \<Longrightarrow> split_on c s = [s]"
  by (induction s) auto

lemma split_on_append: "split_on c (a @ c # b) = split_on c a @ split_on c b"
proof (induction a)
  case Nil
  then show ?case by simp
next
  case (Cons x a)
  obtain y ys where s: "split_on c a = y # ys"
    using split_on_nonempty [of c a] by (cases "split_on c a") auto
  show ?case using Cons s by simp
qed







section \<open>The entity tag and conditional requests\<close>

lemma hex_digit_lower_mem: "n < 16 \<Longrightarrow> is_hex_digit (hex_digit_lower n)"
  unfolding hex_digit_lower_def is_hex_digit_def by (rule nth_mem) simp

lemma hex_digit_lower_inj:
  assumes "i < 16" "j < 16" "hex_digit_lower i = hex_digit_lower j"
  shows "i = j"
proof -
  have d: "distinct ''0123456789abcdef''" by simp
  have "length ''0123456789abcdef'' = 16" by simp
  then show ?thesis
    using assms nth_eq_iff_index_eq [OF d, of i j] by (simp add: hex_digit_lower_def)
qed

lemma hex_nat_chars: "\<forall>c\<in>set (hex_nat n). is_hex_digit c"
proof (induction n rule: hex_nat.induct)
  case (1 n)
  show ?case
  proof (cases "n < 16")
    case True
    then show ?thesis using hex_digit_lower_mem [of n] by (subst hex_nat.simps) simp
  next
    case False
    have "n mod 16 < 16" by simp
    then show ?thesis
      using False 1 hex_digit_lower_mem [of "n mod 16"] by (subst hex_nat.simps) simp
  qed
qed

lemma hex_nat_nonempty: "hex_nat n \<noteq> []"
  by (subst hex_nat.simps) simp

lemma hex_nat_inj: "hex_nat a = hex_nat b \<Longrightarrow> a = b"
proof (induction a arbitrary: b rule: hex_nat.induct)
  case (1 a)
  show ?case
  proof (cases "a < 16")
    case True
    note a = True
    show ?thesis
    proof (cases "b < 16")
      case True
      then show ?thesis
        using a "1.prems" hex_digit_lower_inj [of a b]
        by (simp add: hex_nat.simps [of a] hex_nat.simps [of b])
    next
      case False
      then show ?thesis
        using a "1.prems" hex_nat_nonempty [of "b div 16"]
        by (simp add: hex_nat.simps [of a] hex_nat.simps [of b])
    qed
  next
    case False
    note a = False
    show ?thesis
    proof (cases "b < 16")
      case True
      then show ?thesis
        using a "1.prems" hex_nat_nonempty [of "a div 16"]
        by (simp add: hex_nat.simps [of a] hex_nat.simps [of b])
    next
      case False
      from a False "1.prems" have e: "hex_nat (a div 16) = hex_nat (b div 16)"
        and d: "hex_digit_lower (a mod 16) = hex_digit_lower (b mod 16)"
        by (simp_all add: hex_nat.simps [of a] hex_nat.simps [of b])
      have q: "a div 16 = b div 16" using "1.IH" [OF a e] .
      have r: "a mod 16 = b mod 16" using hex_digit_lower_inj [OF _ _ d] by simp
      show ?thesis using q r by (metis div_mult_mod_eq)
    qed
  qed
qed

lemma hex_nat_no_minus: "CHR ''-'' \<notin> set (hex_nat n)"
proof -
  have "\<not> is_hex_digit CHR ''-''" by (simp add: is_hex_digit_def)
  then show ?thesis using hex_nat_chars [of n] by blast
qed

lemma hex_nat_no_comma: "CHR '','' \<notin> set (hex_nat n)"
proof -
  have "\<not> is_hex_digit CHR '',''" by (simp add: is_hex_digit_def)
  then show ?thesis using hex_nat_chars [of n] by blast
qed

lemma hex_int_inj: "hex_int a = hex_int b \<Longrightarrow> a = b"
proof -
  assume e: "hex_int a = hex_int b"
  have hd_pos: "hd (hex_nat n) \<noteq> CHR ''-''" for n
    using hex_nat_no_minus [of n] hex_nat_nonempty [of n] by (cases "hex_nat n") auto
  show ?thesis
  proof (cases "a < 0")
    case True
    note a = True
    show ?thesis
    proof (cases "b < 0")
      case True
      then have "nat (- a) = nat (- b)" using a e hex_nat_inj by (simp add: hex_int_def)
      then show ?thesis using a True by simp
    next
      case False
      then have "CHR ''-'' # hex_nat (nat (- a)) = hex_nat (nat b)" using a e by (simp add: hex_int_def)
      then show ?thesis using hd_pos [of "nat b"] by (metis list.sel(1))
    qed
  next
    case False
    note a = False
    show ?thesis
    proof (cases "b < 0")
      case True
      then have "hex_nat (nat a) = CHR ''-'' # hex_nat (nat (- b))" using a e by (simp add: hex_int_def)
      then show ?thesis using hd_pos [of "nat a"] by (metis list.sel(1))
    next
      case False
      then have "nat a = nat b" using a e hex_nat_inj by (simp add: hex_int_def)
      then show ?thesis using a False by simp
    qed
  qed
qed

lemma last_separator:
  assumes "a @ c # b = a' @ c # b'" and "c \<notin> set b" and "c \<notin> set b'"
  shows "a = a' \<and> b = b'"
proof -
  have t: "takeWhile (\<lambda>x. x \<noteq> c) (rev (u @ c # v)) = rev v" if "c \<notin> set v" for u v
  proof -
    have "takeWhile (\<lambda>x. x \<noteq> c) (rev v @ c # rev u) = takeWhile (\<lambda>x. x \<noteq> c) (rev v)"
      by (rule takeWhile_tail) simp
    also have "\<dots> = rev v" using that by (auto simp: takeWhile_eq_all_conv)
    finally show ?thesis by simp
  qed
  have "rev b = rev b'" using t [OF assms(2), of a] t [OF assms(3), of a'] assms(1) by simp
  then have b: "b = b'" by simp
  then show ?thesis using assms(1) by simp
qed

lemma make_etag_inj:
  assumes "make_etag a = make_etag b"
  shows "st_mtime_ns a = st_mtime_ns b \<and> st_size a = st_size b"
proof -
  from assms have e:
    "hex_int (st_mtime_ns a) @ CHR ''-'' # (hex_nat (st_size a) @ [CHR 0x22])
     = hex_int (st_mtime_ns b) @ CHR ''-'' # (hex_nat (st_size b) @ [CHR 0x22])"
    by (simp add: make_etag_def)
  have n1: "CHR ''-'' \<notin> set (hex_nat (st_size a) @ [CHR 0x22])"
    using hex_nat_no_minus [of "st_size a"] by simp
  have n2: "CHR ''-'' \<notin> set (hex_nat (st_size b) @ [CHR 0x22])"
    using hex_nat_no_minus [of "st_size b"] by simp
  have "hex_int (st_mtime_ns a) = hex_int (st_mtime_ns b)
      \<and> hex_nat (st_size a) @ [CHR 0x22] = hex_nat (st_size b) @ [CHR 0x22]"
    by (rule last_separator [OF e n1 n2])
  then have "hex_int (st_mtime_ns a) = hex_int (st_mtime_ns b)"
    and "hex_nat (st_size a) = hex_nat (st_size b)" by simp_all
  then show ?thesis using hex_int_inj hex_nat_inj by blast
qed

lemma make_etag_cong:
  "st_mtime_ns a = st_mtime_ns b \<Longrightarrow> st_size a = st_size b \<Longrightarrow> make_etag a = make_etag b"
  by (simp add: make_etag_def)

lemma hex_int_no_comma: "CHR '','' \<notin> set (hex_int i)"
  using hex_nat_no_comma [of "nat i"] hex_nat_no_comma [of "nat (- i)"]
  by (simp add: hex_int_def)

lemma make_etag_no_comma: "CHR '','' \<notin> set (make_etag st)"
  using hex_int_no_comma [of "st_mtime_ns st"] hex_nat_no_comma [of "st_size st"]
  by (simp add: make_etag_def)

lemma make_etag_ends: "make_etag st \<noteq> [] \<and> hd (make_etag st) = CHR 0x22 \<and> last (make_etag st) = CHR 0x22"
  by (simp add: make_etag_def)

lemma strip_padded:
  assumes "\<forall>c\<in>set ws1. is_space c" and "\<forall>c\<in>set ws2. is_space c"
      and "t \<noteq> []" and "\<not> is_space (hd t)" and "\<not> is_space (last t)"
  shows "strip (ws1 @ t @ ws2) = t"
proof -
  obtain x t' where t: "t = x # t'" using assms(3) by (cases t) auto
  have 1: "dropWhile is_space (ws1 @ t @ ws2) = t @ ws2"
    using assms(1,4) t by (simp add: dropWhile_append2)
  obtain z t'' where r: "rev t = z # t''" using assms(3) by (cases "rev t") auto
  have z: "z = last t" using r by (metis last_rev list.sel(1) hd_rev assms(3) rev_rev_ident)
  have "dropWhile is_space (rev ws2 @ rev t) = dropWhile is_space (rev t)"
    by (rule dropWhile_append2) (use assms(2) in simp)
  also have "\<dots> = rev t" unfolding r using assms(5) z by simp
  finally have 2: "dropWhile is_space (rev (t @ ws2)) = rev t" by simp
  show ?thesis by (simp only: strip_def 1 2 rev_rev_ident)
qed

lemma listed_member:
  assumes "c \<notin> set m" and "pre = [] \<or> last pre = c" and "post = [] \<or> hd post = c"
  shows "m \<in> set (split_on c (pre @ m @ post))"
proof -
  have tail: "m \<in> set (split_on c (m @ post))"
  proof (cases post)
    case Nil
    then show ?thesis using assms(1) by (simp add: split_on_none)
  next
    case (Cons x post')
    then have "x = c" using assms(3) by simp
    then show ?thesis using Cons assms(1) by (simp add: split_on_append split_on_none)
  qed
  show ?thesis
  proof (cases "pre = []")
    case True
    then show ?thesis using tail by simp
  next
    case False
    then obtain pre' where "pre = pre' @ [c]"
      using assms(2) by (metis append_butlast_last_id)
    then have "split_on c (pre @ m @ post) = split_on c pre' @ split_on c (m @ post)"
      using split_on_append [of c pre' "m @ post"] by simp
    then show ?thesis using tail by simp
  qed
qed

lemma not_space_quote: "\<not> is_space (CHR 0x22)"
  by (simp add: is_space_def)

lemma space_not_comma: "is_space c \<Longrightarrow> c \<noteq> CHR '',''"
  by (auto simp: is_space_def)

lemma inm_matches_listed:
  assumes "\<forall>c\<in>set (ws1 @ ws2). is_space c"
      and "pre = [] \<or> last pre = CHR '',''" and "post = [] \<or> hd post = CHR '',''"
  shows "inm_matches (make_etag st) (Some (pre @ ws1 @ make_etag st @ ws2 @ post))"
proof -
  let ?m = "ws1 @ make_etag st @ ws2"
  have nc: "CHR '','' \<notin> set ?m"
    using assms(1) make_etag_no_comma [of st] space_not_comma by auto
  have "?m \<in> set (split_on CHR '','' (pre @ ?m @ post))"
    by (rule listed_member [OF nc assms(2,3)])
  then have 1: "strip ?m \<in> set (map strip (split_on CHR '','' (pre @ ws1 @ make_etag st @ ws2 @ post)))"
    by (simp only: set_map append_assoc) (rule imageI)
  have 2: "strip ?m = make_etag st"
    using strip_padded [of ws1 ws2 "make_etag st"] assms(1) make_etag_ends [of st] not_space_quote
    by simp
  have 3: "pre @ ws1 @ make_etag st @ ws2 @ post \<noteq> []" using make_etag_ends [of st] by simp
  show ?thesis using 1 2 3 by (simp add: inm_matches_def)
qed

lemma inm_matches_exact:
  "inm_matches t (Some (make_etag st)) \<longleftrightarrow> t = make_etag st"
proof -
  have s: "split_on CHR '','' (make_etag st) = [make_etag st]"
    using make_etag_no_comma by (rule split_on_none)
  have p: "strip (make_etag st) = make_etag st"
    using strip_padded [of "[]" "[]" "make_etag st"] make_etag_ends [of st] not_space_quote by simp
  show ?thesis using make_etag_ends [of st] by (auto simp: inm_matches_def s p)
qed

lemma serve_file_304:
  "nodes w fp = Some st \<Longrightarrow> inm_matches (make_etag st) (if_none_match rq) \<Longrightarrow>
   serve_file c w fp rq ho cache = (Inr (not_modified c (make_etag st) (lower (suffix_of fp))), cache)"
  by (simp add: serve_file_def Let_def)

lemma gzip_cached_readable:
  "nodes w fp = Some (File dat m True) \<Longrightarrow>
   fst (gzip_cached c w (fp, k) cache) = Inr (cached_body c cache (fp, k) dat)"
  by (simp add: gzip_cached_def read_file_def cached_body_def split: option.splits)

lemma serve_file_gzip:
  assumes "nodes w fp = Some (File dat m True)"
      and "\<not> inm_matches (make_etag (File dat m True)) (if_none_match rq)"
      and "use_gzip (lower (suffix_of fp)) (File dat m True) rq"
  shows "serve_file c w fp rq ho cache =
     (Inr (if ho then head_reply c (make_etag (File dat m True)) (lower (suffix_of fp))
                        (File dat m True)
                        (Some (cached_body c cache (fp, m, length dat) dat))
           else get_reply c (make_etag (File dat m True)) (lower (suffix_of fp))
                        (File dat m True) True
                        (cached_body c cache (fp, m, length dat) dat)),
      snd (gzip_cached c w (fp, m, length dat) cache))"
proof -
  obtain v cache1 where g: "gzip_cached c w (fp, m, length dat) cache = (v, cache1)"
    by (cases "gzip_cached c w (fp, m, length dat) cache")
  then have v: "v = Inr (cached_body c cache (fp, m, length dat) dat)"
    using gzip_cached_readable [OF assms(1), of c "(m, length dat)" cache] by simp
  show ?thesis using assms g v by (simp add: serve_file_def Let_def)
qed

lemma serve_file_raw:
  assumes "nodes w fp = Some (File dat m True)"
      and "\<not> inm_matches (make_etag (File dat m True)) (if_none_match rq)"
      and "\<not> use_gzip (lower (suffix_of fp)) (File dat m True) rq"
  shows "serve_file c w fp rq ho cache =
     (Inr (if ho then head_reply c (make_etag (File dat m True)) (lower (suffix_of fp))
                        (File dat m True) None
           else get_reply c (make_etag (File dat m True)) (lower (suffix_of fp))
                        (File dat m True) False dat),
      cache)"
  using assms by (simp add: serve_file_def Let_def read_file_def)

lemma head_reply_facts:
  "status (head_reply c etag ext st gz) = 200 \<and> body (head_reply c etag ext st gz) = None
   \<and> ((''Content-Encoding'', ''gzip'') \<in> set (headers (head_reply c etag ext st gz)) \<longleftrightarrow> gz \<noteq> None)
   \<and> (''Content-Encoding'' \<in> fst ` set (headers (head_reply c etag ext st gz)) \<longleftrightarrow> gz \<noteq> None)
   \<and> ((''Vary'', ''Accept-Encoding'') \<in> set (headers (head_reply c etag ext st gz)) \<longleftrightarrow> gz \<noteq> None)"
  by (cases gz) (simp_all add: head_reply_def send_response_def gzip_headers_def)

lemma get_reply_facts:
  "status (get_reply c etag ext st gz b) = 200 \<and> body (get_reply c etag ext st gz b) = Some b
   \<and> ((''Content-Encoding'', ''gzip'') \<in> set (headers (get_reply c etag ext st gz b)) \<longleftrightarrow> gz)
   \<and> (''Content-Encoding'' \<in> fst ` set (headers (get_reply c etag ext st gz b)) \<longleftrightarrow> gz)
   \<and> ((''Vary'', ''Accept-Encoding'') \<in> set (headers (get_reply c etag ext st gz b)) \<longleftrightarrow> gz)"
  by (cases gz) (simp_all add: get_reply_def send_response_def gzip_headers_def)

lemma serve_file_no_match:
  assumes "nodes w fp = Some st" and "\<not> inm_matches (make_etag st) (if_none_match rq)"
      and "fst (serve_file c w fp rq ho cache) = Inr (Reply s h b)"
  shows "s = 200"
  using assms
  by (simp add: serve_file_def Let_def head_reply_def get_reply_def
           split: if_splits prod.splits sum.splits)

text \<open>
  Claim C5. The ETag of a file is determined by its modification time and its size, and
  two files have the same ETag exactly when they agree on both: changing either changes the
  ETag. When the \<^verbatim>\<open>If-None-Match\<close> header lists the current ETag of the file (as one of
  its comma-separated members, white space around it allowed), \<^verbatim>\<open>_serve_file\<close> answers
  304 with no body, with the \<^verbatim>\<open>ETag\<close> and \<^verbatim>\<open>Cache-Control\<close> headers, for GET and for
  HEAD alike. When the header holds the ETag of an earlier state of the file that differs in
  size or modification time, the match fails: a reply with a status line is a 200.
\<close>

theorem etag_conditional:
  assumes "nodes w fp = Some st"
  shows "(make_etag st = make_etag st' \<longleftrightarrow>
            st_mtime_ns st = st_mtime_ns st' \<and> st_size st = st_size st')
     \<and> ((\<forall>ch\<in>set (wa @ wb). is_space ch)
          \<and> (pre = [] \<or> last pre = CHR '','') \<and> (post = [] \<or> hd post = CHR '','')
          \<and> if_none_match rq = Some (pre @ wa @ make_etag st @ wb @ post) \<longrightarrow>
          serve_file c w fp rq head_only cache =
            (Inr (Reply 304
                    (send_response c
                     @ [(''ETag'', make_etag st),
                        (''Cache-Control'', cache_control (lower (suffix_of fp)))]
                     @ (if lower (suffix_of fp) \<in> set COMPRESSIBLE
                        then [(''Vary'', ''Accept-Encoding'')] else [])
                     @ [(''Access-Control-Allow-Origin'', ''*'')])
                    None), cache))
     \<and> (if_none_match rq = Some (make_etag st')
          \<and> (st_mtime_ns st \<noteq> st_mtime_ns st' \<or> st_size st \<noteq> st_size st') \<longrightarrow>
          (\<forall>s h b. fst (serve_file c w fp rq head_only cache) = Inr (Reply s h b) \<longrightarrow> s = 200))"
proof (intro conjI impI allI)
  show "make_etag st = make_etag st' \<longleftrightarrow>
          st_mtime_ns st = st_mtime_ns st' \<and> st_size st = st_size st'"
    using make_etag_inj [of st st'] make_etag_cong [of st st'] by blast
next
  assume a: "(\<forall>ch\<in>set (wa @ wb). is_space ch)
          \<and> (pre = [] \<or> last pre = CHR '','') \<and> (post = [] \<or> hd post = CHR '','')
          \<and> if_none_match rq = Some (pre @ wa @ make_etag st @ wb @ post)"
  then have "inm_matches (make_etag st) (if_none_match rq)"
    using inm_matches_listed [of wa wb pre post st] by simp
  from serve_file_304 [OF assms this, of c head_only cache]
  show "serve_file c w fp rq head_only cache =
            (Inr (Reply 304
                    (send_response c
                     @ [(''ETag'', make_etag st),
                        (''Cache-Control'', cache_control (lower (suffix_of fp)))]
                     @ (if lower (suffix_of fp) \<in> set COMPRESSIBLE
                        then [(''Vary'', ''Accept-Encoding'')] else [])
                     @ [(''Access-Control-Allow-Origin'', ''*'')])
                    None), cache)"
    by (simp add: not_modified_def)
next
  fix s h b
  assume a: "if_none_match rq = Some (make_etag st')
          \<and> (st_mtime_ns st \<noteq> st_mtime_ns st' \<or> st_size st \<noteq> st_size st')"
     and r: "fst (serve_file c w fp rq head_only cache) = Inr (Reply s h b)"
  from a have "make_etag st \<noteq> make_etag st'"
    using make_etag_inj [of st st'] by blast
  with a have "\<not> inm_matches (make_etag st) (if_none_match rq)"
    by (simp add: inm_matches_exact)
  from serve_file_no_match [OF assms this r] show "s = 200" .
qed

text \<open>On the concrete mirror: a request that lists the current ETag after a weak one.\<close>

theorem etag_conditional_witness:
  "nodes demo_world [''srv'', ''site'', ''a.js''] = Some (File ''var a;'' 5 True)
   \<and> make_etag (File ''var a;'' 5 True) = [CHR 0x22, CHR ''5'', CHR ''-'', CHR ''6'', CHR 0x22]
   \<and> serve_file demo_codec demo_world [''srv'', ''site'', ''a.js'']
        \<lparr>req_path = ''/a.js'',
         if_none_match = Some (''W/x, '' @ [CHR 0x22, CHR ''5'', CHR ''-'', CHR ''6'', CHR 0x22] @ '' ''),
         accept_encoding = None\<rparr> False []
      = (Inr (Reply 304
               [(''Server'', ''HomDGCat/1.0 Python/3.11.4''),
                (''Date'', ''Wed, 04 Nov 2026 10:00:00 GMT''),
                (''ETag'', [CHR 0x22, CHR ''5'', CHR ''-'', CHR ''6'', CHR 0x22]),
                (''Cache-Control'', ''public, max-age=86400''),
                (''Vary'', ''Accept-Encoding''),
                (''Access-Control-Allow-Origin'', ''*'')]
               None), [])
   \<and> make_etag (File ''var a;'' 5 True) \<noteq> make_etag (File ''var a;'' 6 True)
   \<and> if_none_match \<lparr>req_path = ''/a.js'',
          if_none_match = Some [CHR 0x22, CHR ''6'', CHR ''-'', CHR ''6'', CHR 0x22],
          accept_encoding = None\<rparr> = Some (make_etag (File ''var a;'' 6 True))
   \<and> fst (serve_file demo_codec demo_world [''srv'', ''site'', ''a.js'']
        \<lparr>req_path = ''/a.js'',
         if_none_match = Some [CHR 0x22, CHR ''6'', CHR ''-'', CHR ''6'', CHR 0x22],
         accept_encoding = None\<rparr> False [])
      = Inr (Reply 200
               [(''Server'', ''HomDGCat/1.0 Python/3.11.4''),
                (''Date'', ''Wed, 04 Nov 2026 10:00:00 GMT''),
                (''Content-Type'', ''application/javascript; charset=utf-8''),
                (''Content-Length'', ''6''),
                (''ETag'', [CHR 0x22, CHR ''5'', CHR ''-'', CHR ''6'', CHR 0x22]),
                (''Cache-Control'', ''public, max-age=86400''),
                (''Last-Modified'', ''Thu, 01 Jan 1970 00:00:00 GMT''),
                (''Access-Control-Allow-Origin'', ''*'')]
               (Some ''var a;''))"
proof -
  define st where "st = File ''var a;'' 5 True"
  define fp where "fp = [''srv'', ''site'', ''a.js'']"
  define rq where "rq = \<lparr>req_path = ''/a.js'',
         if_none_match = Some (''W/x, '' @ [CHR 0x22, CHR ''5'', CHR ''-'', CHR ''6'', CHR 0x22] @ '' ''),
         accept_encoding = None\<rparr>"
  have n: "nodes demo_world fp = Some st" by (simp add: demo_world_def fp_def st_def)
  have m: "make_etag st = [CHR 0x22, CHR ''5'', CHR ''-'', CHR ''6'', CHR 0x22]"
    unfolding st_def by code_simp
  have h: "if_none_match rq = Some (''W/x,'' @ '' '' @ make_etag st @ '' '' @ [])"
    unfolding m by (simp add: rq_def)
  have sp: "\<forall>ch\<in>set ('' '' @ '' ''). is_space ch" by (simp add: is_space_def)
  have l: "''W/x,'' = [] \<or> last ''W/x,'' = CHR '',''" by simp
  have e: "lower (suffix_of fp) = ''.js''" unfolding fp_def by code_simp
  have cc: "cache_control ''.js'' = ''public, max-age=86400''" by code_simp
  have co: "''.js'' \<in> set COMPRESSIBLE" by (simp add: COMPRESSIBLE_def)
  note t = etag_conditional [OF n, where st' = "File ''var a;'' 6 True" and wa = "'' ''"
      and wb = "'' ''" and pre = "''W/x,''" and post = "[]" and rq = rq and c = demo_codec
      and head_only = False and cache = "[]"]
  from t sp l h have
    "serve_file demo_codec demo_world fp rq False [] =
       (Inr (Reply 304
                    (send_response demo_codec
                     @ [(''ETag'', make_etag st),
                        (''Cache-Control'', cache_control (lower (suffix_of fp)))]
                     @ (if lower (suffix_of fp) \<in> set COMPRESSIBLE
                        then [(''Vary'', ''Accept-Encoding'')] else [])
                     @ [(''Access-Control-Allow-Origin'', ''*'')])
                    None), [])"
    by blast
  then have s: "serve_file demo_codec demo_world fp rq False [] =
      (Inr (Reply 304
               [(''Server'', ''HomDGCat/1.0 Python/3.11.4''),
                (''Date'', ''Wed, 04 Nov 2026 10:00:00 GMT''),
                (''ETag'', [CHR 0x22, CHR ''5'', CHR ''-'', CHR ''6'', CHR 0x22]),
                (''Cache-Control'', ''public, max-age=86400''),
                (''Vary'', ''Accept-Encoding''),
                (''Access-Control-Allow-Origin'', ''*'')]
               None), [])"
    unfolding e m cc by (simp add: co send_response_def demo_codec_def)
  from t have d: "make_etag st \<noteq> make_etag (File ''var a;'' 6 True)"
    by (simp add: st_def)
  have o: "if_none_match \<lparr>req_path = ''/a.js'',
          if_none_match = Some [CHR 0x22, CHR ''6'', CHR ''-'', CHR ''6'', CHR 0x22],
          accept_encoding = None\<rparr> = Some (make_etag (File ''var a;'' 6 True))"
    by code_simp
  have g: "fst (serve_file demo_codec demo_world [''srv'', ''site'', ''a.js'']
        \<lparr>req_path = ''/a.js'',
         if_none_match = Some [CHR 0x22, CHR ''6'', CHR ''-'', CHR ''6'', CHR 0x22],
         accept_encoding = None\<rparr> False [])
      = Inr (Reply 200
               [(''Server'', ''HomDGCat/1.0 Python/3.11.4''),
                (''Date'', ''Wed, 04 Nov 2026 10:00:00 GMT''),
                (''Content-Type'', ''application/javascript; charset=utf-8''),
                (''Content-Length'', ''6''),
                (''ETag'', [CHR 0x22, CHR ''5'', CHR ''-'', CHR ''6'', CHR 0x22]),
                (''Cache-Control'', ''public, max-age=86400''),
                (''Last-Modified'', ''Thu, 01 Jan 1970 00:00:00 GMT''),
                (''Access-Control-Allow-Origin'', ''*'')]
               (Some ''var a;''))"
    by code_simp
  have nmsd: "nodes demo_world [''srv'', ''site'', ''a.js''] = Some (File ''var a;'' 5 True)
   \<and> make_etag (File ''var a;'' 5 True) = [CHR 0x22, CHR ''5'', CHR ''-'', CHR ''6'', CHR 0x22]
   \<and> serve_file demo_codec demo_world [''srv'', ''site'', ''a.js'']
        \<lparr>req_path = ''/a.js'',
         if_none_match = Some (''W/x, '' @ [CHR 0x22, CHR ''5'', CHR ''-'', CHR ''6'', CHR 0x22] @ '' ''),
         accept_encoding = None\<rparr> False []
      = (Inr (Reply 304
               [(''Server'', ''HomDGCat/1.0 Python/3.11.4''),
                (''Date'', ''Wed, 04 Nov 2026 10:00:00 GMT''),
                (''ETag'', [CHR 0x22, CHR ''5'', CHR ''-'', CHR ''6'', CHR 0x22]),
                (''Cache-Control'', ''public, max-age=86400''),
                (''Vary'', ''Accept-Encoding''),
                (''Access-Control-Allow-Origin'', ''*'')]
               None), [])
   \<and> make_etag (File ''var a;'' 5 True) \<noteq> make_etag (File ''var a;'' 6 True)"
    using n m s d unfolding st_def fp_def rq_def by simp
  note c1 = nmsd [THEN conjunct1]
   and c2 = nmsd [THEN conjunct2, THEN conjunct1]
   and c3 = nmsd [THEN conjunct2, THEN conjunct2, THEN conjunct1]
   and c4 = nmsd [THEN conjunct2, THEN conjunct2, THEN conjunct2]
  show ?thesis using c1 c2 c3 c4 o g by (intro conjI)
qed

section \<open>Compression\<close>

text \<open>
  Claim C4. For a readable file and a request that is not answered 304,
  \<^verbatim>\<open>_serve_file\<close> answers 200, and the reply carries \<^verbatim>\<open>Content-Encoding: gzip\<close> if and
  only if the extension is in the compressible set, the size exceeds 256 bytes and the
  \<^verbatim>\<open>Accept-Encoding\<close> header contains \<^verbatim>\<open>gzip\<close>. When these hold, the reply also
  carries \<^verbatim>\<open>Vary: Accept-Encoding\<close> and the body of a GET is what \<^verbatim>\<open>_gzip_cached\<close>
  returns (the stored bytes, or the compressed content on a miss); otherwise there is no
  \<^verbatim>\<open>Content-Encoding\<close> header and the body of a GET is the content of the file. A HEAD
  request has no body in either case.
\<close>

theorem gzip_iff_eligible:
  assumes "nodes w fp = Some (File dat m True)"
      and "\<not> inm_matches (make_etag (File dat m True)) (if_none_match rq)"
  shows "\<exists>r. fst (serve_file c w fp rq head_only cache) = Inr r \<and> status r = 200
     \<and> ((''Content-Encoding'', ''gzip'') \<in> set (headers r) \<longleftrightarrow>
          lower (suffix_of fp) \<in> set COMPRESSIBLE \<and> 256 < length dat \<and> accepts_gzip rq)
     \<and> (lower (suffix_of fp) \<in> set COMPRESSIBLE \<and> 256 < length dat \<and> accepts_gzip rq \<longrightarrow>
          (''Vary'', ''Accept-Encoding'') \<in> set (headers r)
          \<and> body r = (if head_only then None
                       else Some (cached_body c cache (fp, m, length dat) dat)))
     \<and> (\<not> (lower (suffix_of fp) \<in> set COMPRESSIBLE \<and> 256 < length dat \<and> accepts_gzip rq) \<longrightarrow>
          ''Content-Encoding'' \<notin> fst ` set (headers r)
          \<and> body r = (if head_only then None else Some dat))
     \<and> (accepts_gzip rq \<longleftrightarrow> (\<exists>a p s. accept_encoding rq = Some a \<and> a = p @ ''gzip'' @ s))
     \<and> fst (gzip_cached c w (fp, m, length dat) cache)
         = Inr (cached_body c cache (fp, m, length dat) dat)"
proof -
  let ?st = "File dat m True"
  let ?ext = "lower (suffix_of fp)"
  have u: "use_gzip ?ext ?st rq \<longleftrightarrow> ?ext \<in> set COMPRESSIBLE \<and> 256 < length dat \<and> accepts_gzip rq"
    by (simp add: use_gzip_def)
  have a: "accepts_gzip rq \<longleftrightarrow> (\<exists>a p s. accept_encoding rq = Some a \<and> a = p @ ''gzip'' @ s)"
    by (cases "accept_encoding rq") (auto simp: accepts_gzip_def sublist_def)
  show ?thesis
  proof (cases "use_gzip ?ext ?st rq")
    case True
    then show ?thesis
      using serve_file_gzip [OF assms True, of c head_only cache] u a
        gzip_cached_readable [OF assms(1), of c "(m, length dat)" cache]
        head_reply_facts [of c "make_etag ?st" ?ext ?st "Some (cached_body c cache (fp, m, length dat) dat)"]
        get_reply_facts [of c "make_etag ?st" ?ext ?st True "cached_body c cache (fp, m, length dat) dat"]
      by (cases head_only) simp_all
  next
    case False
    then show ?thesis
      using serve_file_raw [OF assms False, of c head_only cache] u a
        gzip_cached_readable [OF assms(1), of c "(m, length dat)" cache]
        head_reply_facts [of c "make_etag ?st" ?ext ?st None]
        get_reply_facts [of c "make_etag ?st" ?ext ?st False dat]
      by (cases head_only) simp_all
  qed
qed

text \<open>On the concrete mirror: a script of 300 bytes, requested with
  \<^verbatim>\<open>Accept-Encoding: br, gzip\<close> and an empty cache.\<close>

theorem gzip_iff_eligible_witness:
  "nodes big_world [''srv'', ''site'', ''big.js''] = Some (File (replicate 300 CHR ''a'') 5 True)
   \<and> (\<exists>r. fst (serve_file demo_codec big_world [''srv'', ''site'', ''big.js'']
                 \<lparr>req_path = ''/big.js'', if_none_match = None,
                  accept_encoding = Some ''br, gzip''\<rparr> False []) = Inr r
          \<and> status r = 200
          \<and> (''Content-Encoding'', ''gzip'') \<in> set (headers r)
          \<and> (''Vary'', ''Accept-Encoding'') \<in> set (headers r)
          \<and> body r = Some (replicate 40 CHR ''a''))
   \<and> (\<exists>r. fst (serve_file demo_codec big_world [''srv'', ''site'', ''big.js'']
                 \<lparr>req_path = ''/big.js'', if_none_match = None,
                  accept_encoding = Some ''br''\<rparr> False []) = Inr r
          \<and> status r = 200
          \<and> (''Content-Encoding'', ''gzip'') \<notin> set (headers r)
          \<and> body r = Some (replicate 300 CHR ''a''))"
proof -
  define dat where "dat = replicate 300 CHR ''a''"
  define fp where "fp = [''srv'', ''site'', ''big.js'']"
  define rq where "rq = \<lparr>req_path = ''/big.js'', if_none_match = None,
                  accept_encoding = Some ''br, gzip''\<rparr>"
  have n: "nodes big_world fp = Some (File dat 5 True)"
    by (simp add: big_world_def fp_def dat_def)
  have i: "\<not> inm_matches (make_etag (File dat 5 True)) (if_none_match rq)"
    by (simp add: rq_def inm_matches_def)
  have e: "lower (suffix_of fp) \<in> set COMPRESSIBLE" unfolding fp_def by code_simp
  have a: "accepts_gzip rq" unfolding rq_def by code_simp
  have l: "256 < length dat" by (simp add: dat_def)
  have b: "cached_body demo_codec [] (fp, 5, length dat) dat = replicate 40 CHR ''a''"
    by (simp add: cached_body_def demo_codec_def dat_def)
  from gzip_iff_eligible [OF n i, of demo_codec False "[]"] e a l b
  have "\<exists>r. fst (serve_file demo_codec big_world fp rq False []) = Inr r
          \<and> status r = 200
          \<and> (''Content-Encoding'', ''gzip'') \<in> set (headers r)
          \<and> (''Vary'', ''Accept-Encoding'') \<in> set (headers r)
          \<and> body r = Some (replicate 40 CHR ''a'')"
    by auto
  then have first: "\<exists>r. fst (serve_file demo_codec big_world [''srv'', ''site'', ''big.js'']
                 \<lparr>req_path = ''/big.js'', if_none_match = None,
                  accept_encoding = Some ''br, gzip''\<rparr> False []) = Inr r
          \<and> status r = 200
          \<and> (''Content-Encoding'', ''gzip'') \<in> set (headers r)
          \<and> (''Vary'', ''Accept-Encoding'') \<in> set (headers r)
          \<and> body r = Some (replicate 40 CHR ''a'')"
    unfolding dat_def fp_def rq_def by simp
  define rp where "rp = \<lparr>req_path = ''/big.js'', if_none_match = None,
                  accept_encoding = Some ''br''\<rparr>"
  have i2: "\<not> inm_matches (make_etag (File dat 5 True)) (if_none_match rp)"
    by (simp add: rp_def inm_matches_def)
  have a2: "\<not> accepts_gzip rp" unfolding rp_def by code_simp
  from gzip_iff_eligible [OF n i2, of demo_codec False "[]"] a2
  have "\<exists>r. fst (serve_file demo_codec big_world fp rp False []) = Inr r
          \<and> status r = 200
          \<and> (''Content-Encoding'', ''gzip'') \<notin> set (headers r)
          \<and> body r = Some dat"
    by auto
  then have second: "\<exists>r. fst (serve_file demo_codec big_world [''srv'', ''site'', ''big.js'']
                 \<lparr>req_path = ''/big.js'', if_none_match = None,
                  accept_encoding = Some ''br''\<rparr> False []) = Inr r
          \<and> status r = 200
          \<and> (''Content-Encoding'', ''gzip'') \<notin> set (headers r)
          \<and> body r = Some (replicate 300 CHR ''a'')"
    unfolding dat_def fp_def rp_def by simp
  have n0: "nodes big_world [''srv'', ''site'', ''big.js'']
              = Some (File (replicate 300 CHR ''a'') 5 True)"
    using n unfolding dat_def fp_def by simp
  show ?thesis using n0 first second by (intro conjI)
qed

section \<open>HEAD against GET\<close>

text \<open>
  Claim C6 as stated fails: the headers of a HEAD reply are not always the headers of the
  GET reply byte for byte:
  when the body is compressed, HEAD sends \<^verbatim>\<open>Content-Encoding\<close> and \<^verbatim>\<open>Vary\<close> right
  after \<^verbatim>\<open>Content-Length\<close>, GET sends them after \<^verbatim>\<open>Last-Modified\<close>.
\<close>

theorem head_header_order_differs_from_get:
  "fst (serve_file demo_codec big_world [''srv'', ''site'', ''big.js'']
          \<lparr>req_path = ''/big.js'', if_none_match = None, accept_encoding = Some ''gzip''\<rparr>
          True [])
     = Inr (Reply 200
              [(''Server'', ''HomDGCat/1.0 Python/3.11.4''),
               (''Date'', ''Wed, 04 Nov 2026 10:00:00 GMT''),
               (''Content-Type'', ''application/javascript; charset=utf-8''),
               (''Content-Length'', ''40''),
               (''Content-Encoding'', ''gzip''),
               (''Vary'', ''Accept-Encoding''),
               (''ETag'', [CHR 0x22, CHR ''5'', CHR ''-'', CHR ''1'', CHR ''2'', CHR ''c'', CHR 0x22]),
               (''Cache-Control'', ''public, max-age=86400''),
               (''Last-Modified'', ''Thu, 01 Jan 1970 00:00:00 GMT''),
               (''Access-Control-Allow-Origin'', ''*'')]
              None)
   \<and> fst (serve_file demo_codec big_world [''srv'', ''site'', ''big.js'']
          \<lparr>req_path = ''/big.js'', if_none_match = None, accept_encoding = Some ''gzip''\<rparr>
          False [])
     = Inr (Reply 200
              [(''Server'', ''HomDGCat/1.0 Python/3.11.4''),
               (''Date'', ''Wed, 04 Nov 2026 10:00:00 GMT''),
               (''Content-Type'', ''application/javascript; charset=utf-8''),
               (''Content-Length'', ''40''),
               (''ETag'', [CHR 0x22, CHR ''5'', CHR ''-'', CHR ''1'', CHR ''2'', CHR ''c'', CHR 0x22]),
               (''Cache-Control'', ''public, max-age=86400''),
               (''Last-Modified'', ''Thu, 01 Jan 1970 00:00:00 GMT''),
               (''Content-Encoding'', ''gzip''),
               (''Vary'', ''Accept-Encoding''),
               (''Access-Control-Allow-Origin'', ''*'')]
              (Some (replicate 40 CHR ''a'')))"
  by code_simp

text \<open>
  Claim C6, amended. For a readable file, the HEAD reply and the GET reply to the same
  request (same file system, same cache) have the same status and the same headers with
  the same values, up to the order in which they are sent, and leave the same cache; the
  HEAD reply has no body. Either both are the same 304 reply, or both are 200 and the
  \<^verbatim>\<open>Content-Length\<close> of each is the length of the body that GET sends (the compressed
  bytes when compression applies, the content of the file otherwise). When compression
  does not apply, the two header lists are identical, order included.
\<close>

theorem head_headers_match_get:
  assumes "nodes w fp = Some (File dat m True)"
  shows "\<exists>hr gr cache1.
       serve_file c w fp rq True cache = (Inr hr, cache1)
     \<and> serve_file c w fp rq False cache = (Inr gr, cache1)
     \<and> mset (headers hr) = mset (headers gr)
     \<and> body hr = None
     \<and> ((status gr = 304 \<and> hr = gr)
        \<or> (\<exists>b. b = (if use_gzip (lower (suffix_of fp)) (File dat m True) rq
                     then cached_body c cache (fp, m, length dat) dat else dat)
              \<and> status hr = 200 \<and> status gr = 200 \<and> body gr = Some b
              \<and> map_of (headers hr) ''Content-Length'' = Some (str_nat (length b))
              \<and> map_of (headers gr) ''Content-Length'' = Some (str_nat (length b))
              \<and> (\<not> use_gzip (lower (suffix_of fp)) (File dat m True) rq \<longrightarrow>
                    headers hr = headers gr)))"
proof (cases "inm_matches (make_etag (File dat m True)) (if_none_match rq)")
  case True
  show ?thesis
    using serve_file_304 [OF assms True, of c True cache]
          serve_file_304 [OF assms True, of c False cache]
    by (simp add: not_modified_def)
next
  case nm: False
  show ?thesis
  proof (cases "use_gzip (lower (suffix_of fp)) (File dat m True) rq")
    case True
    show ?thesis
      using serve_file_gzip [OF assms nm True, of c True cache]
            serve_file_gzip [OF assms nm True, of c False cache] True
      by (simp add: head_reply_def get_reply_def send_response_def gzip_headers_def)
  next
    case False
    show ?thesis
      using serve_file_raw [OF assms nm False, of c True cache]
            serve_file_raw [OF assms nm False, of c False cache] False
      by (simp add: head_reply_def get_reply_def send_response_def)
  qed
qed

theorem head_headers_match_get_witness:
  "nodes big_world [''srv'', ''site'', ''big.js''] = Some (File (replicate 300 CHR ''a'') 5 True)
   \<and> (\<exists>hr gr cache1.
        serve_file demo_codec big_world [''srv'', ''site'', ''big.js'']
          \<lparr>req_path = ''/big.js'', if_none_match = None, accept_encoding = Some ''gzip''\<rparr>
          True [] = (Inr hr, cache1)
      \<and> serve_file demo_codec big_world [''srv'', ''site'', ''big.js'']
          \<lparr>req_path = ''/big.js'', if_none_match = None, accept_encoding = Some ''gzip''\<rparr>
          False [] = (Inr gr, cache1)
      \<and> mset (headers hr) = mset (headers gr)
      \<and> body hr = None)"
proof -
  have n: "nodes big_world [''srv'', ''site'', ''big.js'']
             = Some (File (replicate 300 CHR ''a'') 5 True)"
    by (simp add: big_world_def)
  from head_headers_match_get [OF n, of demo_codec
      "\<lparr>req_path = ''/big.js'', if_none_match = None, accept_encoding = Some ''gzip''\<rparr>" "[]"]
  show ?thesis using n by blast
qed

section \<open>The resolver of the server\<close>

lemma is_file_emit [simp]: "is_file (emit ev w) p = is_file w p"
  by (simp add: is_file_def emit_def)

lemma nodes_emit [simp]: "nodes (emit ev w) = nodes w"
  by (simp add: emit_def)

lemma probe_file_eq: "probe_file p w = (is_file w p, emit (FsStat p) w)"
  by (simp add: probe_file_def)





















end
